theory Spec2Isabelle
  imports Main
begin

section \<open>Values exchanged with the embedding code\<close>

text \<open>
  The underlying object \<open>U\<close> is an event emitter created by the subclass hook
  \<open>_createAndCheck\<close>; the model identifies each object by a number.  The raw
  arguments of an event emitted by the underlying object are kept as a list of
  strings.
\<close>

type_synonym handle = nat
type_synonym args = "string list"

text \<open>
  The errors that occur.  \<open>AssertionError\<close> is what \<open>assert(cond, msg)\<close>
  throws, \<open>HookError\<close> is whatever a subclass hook throws, \<open>TypeError\<close> is
  the runtime's own error for calling \<open>bind\<close> on a missing method.
  \<open>ObjError\<close> is the value \<open>_onError(err)\<close> receives: the first argument of an
  \<open>error\<close> event of the underlying object, \<open>undefined\<close> when it has none.
  \<open>UnreliableDeathError\<close> (file \<open>Unreliable.h\<close>) carries the fields
  \<open>unreliable\<close> and \<open>reason\<close> its constructor is given;
  \<open>DeathErrorSubclass\<close> is an instance of a class configured as
  \<open>deathErrorClass\<close>, named by the class, with the same two fields.
\<close>

datatype error =
    AssertionError string
  | HookError string
  | ObjError "string option"
  | TypeError string
  | UnreliableDeathError "handle option" args
  | DeathErrorSubclass string "handle option" args

subsection \<open>Daemon.h\<close>

datatype DaemonEvents = E_STARTING | E_START_FAILED | E_RUNNING | E_RETRY_SCHEDULED | E_DIED

datatype DaemonStatus = INIT | STARTING | RUNNING | RETRY_SCHEDULED | DEAD

record StartFailureError =
  cause :: error
  nthAttempt :: int
  retryIn :: int

datatype EventArgs =
    Starting int
  | StartFailed StartFailureError
  | Running
  | RetryScheduled int int

subsection \<open>Unreliable.h\<close>

text \<open>
  The declarations of \<open>Unreliable.h\<close>: the six state names, the state
  configuration (two sets and two ordered collections of event names), the
  auxiliary event-handler bindings (event name, method name), the death events
  and the optional class of the death error (here its name).  A state change
  carries the old state and, for \<open>StartFailureReason\<close> and \<open>StopReason\<close>, the
  causal error (\<open>{ err }\<close>) or the death reason (\<open>{ reason }\<close>).
\<close>

record States =
  init :: string
  starting :: string
  startFailed :: string
  running :: string
  stopping :: string
  stopped :: string

record StateConf =
  startable :: "string set"
  stoppable :: "string set"
  abortOnDeath :: "string list"
  abortOnStartFailure :: "string list"

record UnreliableMeta =
  states :: States
  stateConf :: StateConf
  eventHandlers :: "(string \<times> string) list"
  deathEvents :: "string list"
  deathErrorClass :: "string option"

datatype extra = NoExtra | Err error | Reason args

record StateChange =
  oldState :: string
  extra :: extra

section \<open>The broadcast/wait primitive\<close>

text \<open>
  \<open>EventBarrier\<close> (package \<open>@unlib-js/event-barrier\<close>) is an external
  collaborator.  Its interface is modelled by what it makes observable: a
  \<open>notify\<close> delivers the event and its payload to the listeners and waiters of
  that event, synchronously for listeners; the entry of the trace records, next
  to the event and the payload, the value the state getter of the notifying
  object returns while the listeners run.  An \<open>abort\<close> rejects the waiters of
  one event with an error, \<open>abortAll\<close> those of every event.
\<close>

datatype u_effect =
    UNotify string StateChange string
  | UAbort string error
  | UAbortAll error

datatype d_effect =
    Notify DaemonEvents EventArgs DaemonStatus
  | Abort DaemonEvents StartFailureError

record waiter =
  w_event :: string
  w_timeout :: "int option"
  w_signal :: "nat option"

section \<open>The object graph\<close>

text \<open>
  A subscription \<open>on(obj, event, handler)\<close> on the underlying object: the
  handler is \<open>_onError\<close>, \<open>_onDeath\<close> or a subclass method named in
  \<open>eventHandlers\<close>.
\<close>

datatype handler = OnError | OnDeath | Aux string

type_synonym sub = "handle \<times> string \<times> handler"

text \<open>
  The subclass hook \<open>_stop\<close>: it returns, it throws, or (as the test's
  \<open>FakeProcess\<close> does) it makes the underlying object emit an event before it
  returns.
\<close>

datatype stop_behaviour = StopReturns | StopThrows error | StopEmits string args

text \<open>
  The fields of an \<open>Unreliable\<close>: \<open>u_state\<close> is \<open>_state\<close>, \<open>u_disposables\<close>
  is \<open>_disposables\<close>.  \<open>obj_subs\<close> are the listeners attached to underlying
  objects, \<open>listeners\<close> the once-listeners attached to the instance itself (event
  name and identity of the callback), \<open>waiters\<close> the pending \<open>waitFor\<close> calls,
  \<open>u_trace\<close> what the instance has broadcast so far.  \<open>stopHook\<close> and
  \<open>methods\<close> describe the subclass: what \<open>_stop\<close> does and which method names
  exist.
\<close>

record Unreliable =
  meta :: UnreliableMeta
  u_state :: string
  uObj :: "handle option"
  u_disposables :: "sub list"
  obj_subs :: "sub list"
  listeners :: "(string \<times> nat) list"
  waiters :: "waiter list"
  u_trace :: "u_effect list"
  stopHook :: stop_behaviour
  methods :: "string set"

text \<open>
  A suspended call of \<open>Daemon._start\<close>: its attempt number, the \<open>maxAttempt\<close>
  it read on entry, and how far the promise of \<open>it.start()\<close> has come.
\<close>

datatype stage =
    AwaitHook
  | StartRejected error
  | StartResolved handle
  | ItStartRejected error
  | ItStartResolved

record frame =
  attempt :: int
  f_maxAttempt :: int
  stage :: stage

text \<open>
  The fields of a \<open>Daemon\<close>: \<open>d_state\<close> is \<open>_state\<close>, \<open>d_disposables\<close> is
  \<open>_disposables\<close> (each entry removes one listener from \<open>it\<close>), \<open>retryTimer\<close>
  is \<open>_retryTimer\<close>.  \<open>timers\<close> are the live timeouts of the runtime with the
  attempt number their callback holds, \<open>next_id\<close> numbers new timeouts and
  closures, \<open>frames\<close> are the suspended \<open>_start\<close> calls, \<open>d_trace\<close> is what
  the daemon has broadcast so far.
\<close>

record Daemon =
  it :: Unreliable
  maxAttempt :: int
  retryDelay :: int
  retryTimer :: "nat option"
  d_disposables :: "(string \<times> nat) list"
  d_state :: DaemonStatus
  timers :: "(nat \<times> int) list"
  next_id :: nat
  frames :: "frame list"
  d_trace :: "d_effect list"

section \<open>Daemon: timers, cleanup, retry scheduling\<close>

text \<open>
  Both classes have methods called \<open>start\<close>, \<open>_start\<close> and \<open>stop\<close>, so the
  methods of \<open>Daemon\<close> carry the prefix \<open>D_\<close> and those of \<open>Unreliable\<close> the
  prefix \<open>U_\<close>; \<open>D__start_...\<close> and \<open>U__start_...\<close> are the parts of the
  two \<open>_start\<close> methods between their suspension points.  Every function takes
  the object graph (the daemon with its Unreliable) and returns the new one.
  \<open>d_notify\<close> and \<open>d_abort\<close> are \<open>notify\<close> and \<open>abort\<close> of the barrier the
  daemon extends.
\<close>

definition d_notify :: "DaemonEvents \<Rightarrow> EventArgs \<Rightarrow> Daemon \<Rightarrow> Daemon" where
  "d_notify ev arg d = d\<lparr>d_trace := d_trace d @ [Notify ev arg (d_state d)]\<rparr>"

definition d_abort :: "DaemonEvents \<Rightarrow> StartFailureError \<Rightarrow> Daemon \<Rightarrow> Daemon" where
  "d_abort ev err d = d\<lparr>d_trace := d_trace d @ [Abort ev err]\<rparr>"

definition dead :: "Daemon \<Rightarrow> bool" where
  "dead d = (d_state d = DEAD)"

definition clearTimeout :: "nat \<Rightarrow> Daemon \<Rightarrow> Daemon" where
  "clearTimeout t d = d\<lparr>timers := filter (\<lambda>(i, n). i \<noteq> t) (timers d)\<rparr>"

text \<open>
  \<open>dispose()\<close> of a daemon disposable: \<open>emitter.off(event, handler)\<close> on
  \<open>it\<close>.  Each closure is registered once, under a number of its own.
\<close>

definition D_dispose :: "string \<times> nat \<Rightarrow> Daemon \<Rightarrow> Daemon" where
  "D_dispose l d = d\<lparr>it := (it d)\<lparr>listeners := removeAll l (listeners (it d))\<rparr>\<rparr>"

definition D_cleanUp :: "Daemon \<Rightarrow> Daemon" where
  "D_cleanUp d =
     (let d1 = fold D_dispose (d_disposables d) d;
          d2 = d1\<lparr>d_disposables := []\<rparr>
      in case retryTimer d2 of
           None \<Rightarrow> d2
         | Some t \<Rightarrow> (clearTimeout t d2)\<lparr>retryTimer := None\<rparr>)"

definition D_scheduleRetry :: "int \<Rightarrow> Daemon \<Rightarrow> Daemon" where
  "D_scheduleRetry n d =
     (let d1 = (case retryTimer d of None \<Rightarrow> d | Some t \<Rightarrow> clearTimeout t d);
          d2 = d_notify E_RETRY_SCHEDULED (RetryScheduled n (retryDelay d1)) d1;
          d3 = d2\<lparr>d_state := RETRY_SCHEDULED\<rparr>;
          t = next_id d3
      in d3\<lparr>retryTimer := Some t, timers := timers d3 @ [(t, n)], next_id := Suc t\<rparr>)"

text \<open>
  The callback \<open>_start\<close> registers with \<open>once(it, stopped, ...)\<close>; it calls
  \<open>_scheduleRetry()\<close> with the default attempt number.
\<close>

definition onStopped :: "Daemon \<Rightarrow> Daemon" where
  "onStopped d = (let d1 = D_cleanUp d in if \<not> dead d1 then D_scheduleRetry 1 d1 else d1)"

section \<open>Unreliable\<close>

text \<open>
  \<open>notify\<close> on the Unreliable: the waiters of the event are resolved, the
  once-listeners of the event are removed and called.  The only listeners the
  model attaches to an Unreliable are the daemon's \<open>onStopped\<close> closures.
\<close>

definition u_notify :: "string \<Rightarrow> StateChange \<Rightarrow> Daemon \<Rightarrow> Daemon" where
  "u_notify ev ch d =
     (let u = it d;
          fired = filter (\<lambda>(e, i). e = ev) (listeners u);
          u1 = u\<lparr>u_trace := u_trace u @ [UNotify ev ch (u_state u)],
                 waiters := filter (\<lambda>w. w_event w \<noteq> ev) (waiters u),
                 listeners := filter (\<lambda>(e, i). e \<noteq> ev) (listeners u)\<rparr>
      in fold (\<lambda>l. onStopped) fired (d\<lparr>it := u1\<rparr>))"

definition u_abort :: "string \<Rightarrow> error \<Rightarrow> Daemon \<Rightarrow> Daemon" where
  "u_abort ev err d =
     d\<lparr>it := (it d)\<lparr>u_trace := u_trace (it d) @ [UAbort ev err],
                      waiters := filter (\<lambda>w. w_event w \<noteq> ev) (waiters (it d))\<rparr>\<rparr>"

definition u_abortAll :: "error \<Rightarrow> Daemon \<Rightarrow> Daemon" where
  "u_abortAll err d =
     d\<lparr>it := (it d)\<lparr>u_trace := u_trace (it d) @ [UAbortAll err], waiters := []\<rparr>\<rparr>"

definition U_setState :: "string \<Rightarrow> extra \<Rightarrow> Daemon \<Rightarrow> Daemon" where
  "U_setState newState ex d =
     (let d1 = u_notify newState \<lparr>oldState = u_state (it d), extra = ex\<rparr> d
      in d1\<lparr>it := (it d1)\<lparr>u_state := newState\<rparr>\<rparr>)"

definition U_startable :: "Unreliable \<Rightarrow> bool" where
  "U_startable u = (u_state u \<in> startable (stateConf (meta u)))"

definition U_stoppable :: "Unreliable \<Rightarrow> bool" where
  "U_stoppable u = (u_state u \<in> stoppable (stateConf (meta u)))"

text \<open>\<open>dispose()\<close> of a disposable of the Unreliable: \<open>obj.off(event, handler)\<close>.\<close>

definition U_dispose :: "sub \<Rightarrow> Daemon \<Rightarrow> Daemon" where
  "U_dispose s d = d\<lparr>it := (it d)\<lparr>obj_subs := remove1 s (obj_subs (it d))\<rparr>\<rparr>"

text \<open>
  \<open>_onError(err)\<close> is registered as the listener of \<open>error\<close>: of the
  arguments of the event it takes the first.
\<close>

definition U_onError :: "args \<Rightarrow> Daemon \<Rightarrow> Daemon" where
  "U_onError a d = u_abortAll (ObjError (case a of [] \<Rightarrow> None | err # rest \<Rightarrow> Some err)) d"

text \<open>
  \<open>new deathErrorClass(unreliable, reason)\<close>, where \<open>deathErrorClass\<close> defaults
  to \<open>UnreliableDeathError\<close>.
\<close>

definition new_deathError :: "UnreliableMeta \<Rightarrow> handle option \<Rightarrow> args \<Rightarrow> error" where
  "new_deathError m u reason =
     (case deathErrorClass m of
        None \<Rightarrow> UnreliableDeathError u reason
      | Some c \<Rightarrow> DeathErrorSubclass c u reason)"

definition U_onDeath :: "args \<Rightarrow> Daemon \<Rightarrow> Daemon" where
  "U_onDeath reason d =
     (let m = meta (it d);
          err = new_deathError m (uObj (it d)) reason;
          d1 = U_setState (stopped (states m)) (Reason reason) d;
          d2 = d1\<lparr>it := (it d1)\<lparr>uObj := None\<rparr>\<rparr>;
          d3 = fold U_dispose (u_disposables (it d2)) d2;
          d4 = d3\<lparr>it := (it d3)\<lparr>u_disposables := []\<rparr>\<rparr>
      in fold (\<lambda>ev. u_abort ev err) (abortOnDeath (stateConf m)) d4)"

text \<open>
  The underlying object emits an event: the listeners attached to it for that
  event at that moment are called in the order of their registration.  The body
  of an auxiliary handler belongs to the subclass and is not modelled.
\<close>

fun run_handler :: "handler \<Rightarrow> args \<Rightarrow> Daemon \<Rightarrow> Daemon" where
  "run_handler OnError a d = U_onError a d"
| "run_handler OnDeath a d = U_onDeath a d"
| "run_handler (Aux name) a d = d"

definition obj_emit :: "handle \<Rightarrow> string \<Rightarrow> args \<Rightarrow> Daemon \<Rightarrow> Daemon" where
  "obj_emit h ev a d =
     fold (\<lambda>(h', ev', hdl). run_handler hdl a)
          (filter (\<lambda>(h', ev', hdl). h' = h \<and> ev' = ev) (obj_subs (it d))) d"

text \<open>
  \<open>stop()\<close> may throw after it has changed the state, so it returns the thrown
  error (if any) next to the new object graph.
\<close>

definition U__stop :: "Daemon \<Rightarrow> error option \<times> Daemon" where
  "U__stop d =
     (case stopHook (it d) of
        StopReturns \<Rightarrow> (None, d)
      | StopThrows e \<Rightarrow> (Some e, d)
      | StopEmits ev a \<Rightarrow>
          (case uObj (it d) of
             None \<Rightarrow> (Some (TypeError ''emit''), d)
           | Some h \<Rightarrow> (None, obj_emit h ev a d)))"

definition U_stop :: "Daemon \<Rightarrow> error option \<times> Daemon" where
  "U_stop d =
     (if \<not> U_stoppable (it d)
      then (Some (AssertionError (''Cannot stop in state: '' @ u_state (it d))), d)
      else if uObj (it d) = None then (Some (AssertionError ''Invalid state''), d)
      else U__stop (U_setState (stopping (states (meta (it d)))) NoExtra d))"

text \<open>
  \<open>_start()\<close> of the Unreliable up to its \<open>await this._createAndCheck()\<close>:
  \<open>Some e\<close> says that the promise of \<open>_start\<close> is rejected with \<open>e\<close> before
  the hook was called, \<open>None\<close> that the call waits for the hook.
\<close>

definition U__start_sync :: "Daemon \<Rightarrow> error option \<times> Daemon" where
  "U__start_sync d =
     (if \<not> U_startable (it d) then (Some (AssertionError ''Not startable''), d)
      else if uObj (it d) \<noteq> None then (Some (AssertionError ''Invalid state''), d)
      else (None, U_setState (starting (states (meta (it d)))) NoExtra d))"

text \<open>
  The loop over \<open>eventHandlers\<close>: each handler name is looked up on the instance
  and bound; a missing method makes \<open>bind\<close> throw.
\<close>

fun register_handlers :: "handle \<Rightarrow> (string \<times> string) list \<Rightarrow> Daemon \<Rightarrow> error option \<times> Daemon" where
  "register_handlers obj [] d = (None, d)"
| "register_handlers obj ((ev, name) # hs) d =
     (if name \<notin> methods (it d) then (Some (TypeError name), d)
      else register_handlers obj hs
             (d\<lparr>it := (it d)\<lparr>u_disposables := u_disposables (it d) @ [(obj, ev, Aux name)],
                              obj_subs := obj_subs (it d) @ [(obj, ev, Aux name)]\<rparr>\<rparr>))"

text \<open>\<open>_start()\<close> of the Unreliable after the hook has returned \<open>obj\<close>.\<close>

definition U__start_resume :: "handle \<Rightarrow> Daemon \<Rightarrow> error option \<times> Daemon" where
  "U__start_resume obj d =
     (let m = meta (it d);
          d1 = d\<lparr>it := (it d)\<lparr>uObj := Some obj\<rparr>\<rparr>;
          d2 = U_setState (running (states m)) NoExtra d1;
          subs = (obj, ''error'', OnError) # map (\<lambda>ev. (obj, ev, OnDeath)) (deathEvents m);
          d3 = d2\<lparr>it := (it d2)\<lparr>u_disposables := u_disposables (it d2) @ subs,
                                 obj_subs := obj_subs (it d2) @ subs\<rparr>\<rparr>
      in register_handlers obj (eventHandlers m) d3)"

text \<open>The \<open>catch\<close> block of \<open>start()\<close>; the error it returns is the one it re-throws.\<close>

definition U_start_catch :: "error \<Rightarrow> Daemon \<Rightarrow> error \<times> Daemon" where
  "U_start_catch err d =
     (let m = meta (it d);
          d1 = fold (\<lambda>ev. u_abort ev err) (abortOnStartFailure (stateConf m)) d
      in (err, U_setState (startFailed (states m)) (Err err) d1))"

text \<open>
  \<open>start()\<close> of the Unreliable from call to settlement, with the outcome of the
  creation hook given: the segments above in sequence.
\<close>

datatype hook_outcome = HookOk handle | HookFails error

definition U_start :: "hook_outcome \<Rightarrow> Daemon \<Rightarrow> error option \<times> Daemon" where
  "U_start hook d =
     (case U__start_sync d of
        (Some e, d1) \<Rightarrow> (case U_start_catch e d1 of (e', d2) \<Rightarrow> (Some e', d2))
      | (None, d1) \<Rightarrow>
         (case hook of
            HookFails e \<Rightarrow> (case U_start_catch e d1 of (e', d2) \<Rightarrow> (Some e', d2))
          | HookOk obj \<Rightarrow>
             (case U__start_resume obj d1 of
                (Some e, d2) \<Rightarrow> (case U_start_catch e d2 of (e', d3) \<Rightarrow> (Some e', d3))
              | (None, d2) \<Rightarrow> (None, d2))))"

text \<open>
  \<open>waitForState\<close>: \<open>None\<close> is the immediate return of \<open>undefined\<close>; otherwise
  the call is delegated to \<open>waitFor\<close> of the barrier, which registers a waiter
  (\<open>Some\<close> of its position) that a later \<open>notify\<close> resolves with the payload.
\<close>

definition u_waitFor :: "string \<Rightarrow> int option \<Rightarrow> nat option \<Rightarrow> Daemon \<Rightarrow> nat \<times> Daemon" where
  "u_waitFor ev timeout signal d =
     (length (waiters (it d)),
      d\<lparr>it := (it d)\<lparr>waiters := waiters (it d) @
           [\<lparr>w_event = ev, w_timeout = timeout, w_signal = signal\<rparr>]\<rparr>\<rparr>)"

definition U_waitForState :: "string \<Rightarrow> int option \<Rightarrow> nat option \<Rightarrow> Daemon \<Rightarrow> nat option \<times> Daemon" where
  "U_waitForState dstState timeout signal d =
     (if u_state (it d) = dstState then (None, d)
      else (case u_waitFor dstState timeout signal d of (w, d1) \<Rightarrow> (Some w, d1)))"

section \<open>Daemon: start, stop and the attempt loop\<close>

text \<open>\<open>_start(nthAttempt)\<close> up to its \<open>await it.start()\<close>.\<close>

definition D__start_sync :: "int \<Rightarrow> Daemon \<Rightarrow> Daemon" where
  "D__start_sync n d =
     (if dead d then d
      else
        let d1 = (case retryTimer d of
                    None \<Rightarrow> d
                  | Some t \<Rightarrow> (clearTimeout t d)\<lparr>retryTimer := None\<rparr>);
            maxA = maxAttempt d1;
            d2 = D_cleanUp d1;
            d3 = d_notify E_STARTING (Starting n) d2;
            d4 = d3\<lparr>d_state := STARTING\<rparr>
        in case U__start_sync d4 of
             (r, d5) \<Rightarrow>
               d5\<lparr>frames := frames d5 @
                    [\<lparr>attempt = n, f_maxAttempt = maxA,
                      stage = (case r of None \<Rightarrow> AwaitHook | Some e \<Rightarrow> StartRejected e)\<rparr>]\<rparr>)"

text \<open>\<open>_start\<close> after \<open>await it.start()\<close> has returned.\<close>

definition D__start_success :: "Daemon \<Rightarrow> Daemon" where
  "D__start_success d =
     (let d1 = d_notify E_RUNNING Running d;
          d2 = d1\<lparr>d_state := RUNNING\<rparr>;
          l = (stopped (states (meta (it d2))), next_id d2)
      in d2\<lparr>it := (it d2)\<lparr>listeners := listeners (it d2) @ [l]\<rparr>,
             d_disposables := d_disposables d2 @ [l],
             next_id := Suc (next_id d2)\<rparr>)"

text \<open>The \<open>catch\<close> block of \<open>_start\<close>.\<close>

definition D__start_catch :: "int \<Rightarrow> int \<Rightarrow> error \<Rightarrow> Daemon \<Rightarrow> Daemon" where
  "D__start_catch n maxA err d =
     (let d1 = (if U_stoppable (it d) then snd (U_stop d) else d)
      in if n \<ge> maxA then
           let startFailure = \<lparr>cause = err, nthAttempt = n, retryIn = - 1\<rparr>;
               d2 = d_notify E_START_FAILED (StartFailed startFailure) d1;
               d3 = d2\<lparr>d_state := DEAD\<rparr>
           in d_abort E_RUNNING startFailure d3
         else if \<not> dead d1 then
           D_scheduleRetry (n + 1)
             (d_notify E_START_FAILED
                (StartFailed \<lparr>cause = err, nthAttempt = n, retryIn = retryDelay d1\<rparr>) d1)
         else d1)"

definition D_start :: "Daemon \<Rightarrow> Daemon" where
  "D_start d = D__start_sync 1 (d\<lparr>d_state := INIT\<rparr>)"

definition D_stop :: "Daemon \<Rightarrow> Daemon" where
  "D_stop d =
     (let d1 = d\<lparr>d_state := DEAD\<rparr>;
          d2 = D_cleanUp d1;
          d3 = (case retryTimer d2 of
                  None \<Rightarrow> d2
                | Some t \<Rightarrow> (clearTimeout t d2)\<lparr>retryTimer := None\<rparr>)
      in snd (U_stop d3))"

text \<open>
  \<open>waitForDeath\<close>: the result of \<open>waitForState\<close> when \<open>it\<close> is stoppable,
  \<open>undefined\<close> at once otherwise.
\<close>

definition D_waitForDeath :: "int option \<Rightarrow> nat option \<Rightarrow> Daemon \<Rightarrow> nat option \<times> Daemon" where
  "D_waitForDeath timeout signal d =
     (if U_stoppable (it d)
      then U_waitForState (stopped (states (meta (it d)))) timeout signal d
      else (None, d))"

text \<open>The constructors.\<close>

definition Unreliable_new :: "UnreliableMeta \<Rightarrow> stop_behaviour \<Rightarrow> string set \<Rightarrow> Unreliable" where
  "Unreliable_new m sh ms =
     \<lparr>meta = m, u_state = init (states m), uObj = None, u_disposables = [], obj_subs = [],
      listeners = [], waiters = [], u_trace = [], stopHook = sh, methods = ms\<rparr>"

definition Daemon_new :: "Unreliable \<Rightarrow> int \<Rightarrow> int \<Rightarrow> Daemon" where
  "Daemon_new u maxA delay =
     \<lparr>it = u, maxAttempt = maxA, retryDelay = delay, retryTimer = None, d_disposables = [],
      d_state = INIT, timers = [], next_id = 0, frames = [], d_trace = []\<rparr>"

section \<open>The event loop\<close>

text \<open>
  What can happen to the object graph: the external calls of \<open>start()\<close>,
  \<open>stop()\<close> and \<open>waitForDeath\<close>, a live timeout
  firing, the creation hook of a suspended attempt settling, a queued
  continuation of a suspended attempt running (one microtask), and the
  underlying object emitting an event.  Frames are addressed by their position
  in \<open>frames\<close>.  An event that is not enabled yields \<open>None\<close>.
\<close>

datatype event =
    CallStart
  | CallStop
  | CallWaitForDeath "int option" "nat option"
  | TimerFires nat
  | HookResolves nat handle
  | HookRejects nat error
  | Resume nat
  | ObjEmits handle string args

definition set_stage :: "nat \<Rightarrow> stage \<Rightarrow> Daemon \<Rightarrow> Daemon" where
  "set_stage i s d = d\<lparr>frames := (frames d)[i := (frames d ! i)\<lparr>stage := s\<rparr>]\<rparr>"

definition drop_frame :: "nat \<Rightarrow> Daemon \<Rightarrow> Daemon" where
  "drop_frame i d = d\<lparr>frames := take i (frames d) @ drop (Suc i) (frames d)\<rparr>"

text \<open>
  The callback of \<open>setTimeout\<close> in \<open>_scheduleRetry\<close>; the timeout that fires
  is no longer live.
\<close>

definition timer_callback :: "nat \<Rightarrow> int \<Rightarrow> Daemon \<Rightarrow> Daemon" where
  "timer_callback t n d =
     D__start_sync n ((d\<lparr>timers := filter (\<lambda>(i, k). i \<noteq> t) (timers d)\<rparr>)\<lparr>retryTimer := None\<rparr>)"

fun step :: "event \<Rightarrow> Daemon \<Rightarrow> Daemon option" where
  "step CallStart d = Some (D_start d)"
| "step CallStop d = Some (D_stop d)"
| "step (CallWaitForDeath timeout signal) d = Some (snd (D_waitForDeath timeout signal d))"
| "step (TimerFires t) d =
     (case map_of (timers d) t of
        None \<Rightarrow> None
      | Some n \<Rightarrow> Some (timer_callback t n d))"
| "step (HookResolves i obj) d =
     (if i < length (frames d) \<and> stage (frames d ! i) = AwaitHook
      then (case U__start_resume obj d of
              (None, d1) \<Rightarrow> Some (set_stage i (StartResolved obj) d1)
            | (Some e, d1) \<Rightarrow> Some (set_stage i (StartRejected e) d1))
      else None)"
| "step (HookRejects i e) d =
     (if i < length (frames d) \<and> stage (frames d ! i) = AwaitHook
      then Some (set_stage i (StartRejected e) d)
      else None)"
| "step (Resume i) d =
     (if i < length (frames d)
      then (case stage (frames d ! i) of
              AwaitHook \<Rightarrow> None
            | StartRejected e \<Rightarrow>
                (case U_start_catch e d of
                   (e', d1) \<Rightarrow> Some (set_stage i (ItStartRejected e') d1))
            | StartResolved obj \<Rightarrow> Some (set_stage i ItStartResolved d)
            | ItStartRejected e \<Rightarrow>
                Some (D__start_catch (attempt (frames d ! i)) (f_maxAttempt (frames d ! i)) e
                        (drop_frame i d))
            | ItStartResolved \<Rightarrow> Some (D__start_success (drop_frame i d)))
      else None)"
| "step (ObjEmits h ev a) d = Some (obj_emit h ev a d)"

fun run :: "event list \<Rightarrow> Daemon \<Rightarrow> Daemon option" where
  "run [] d = Some d"
| "run (e # es) d = (case step e d of None \<Rightarrow> None | Some d1 \<Rightarrow> run es d1)"

text \<open>
  The states a daemon can be in: a daemon made by the constructor around a
  just-initialized Unreliable, after any sequence of enabled events.
\<close>

inductive reachable :: "Daemon \<Rightarrow> bool" where
  reachable_new: "reachable (Daemon_new (Unreliable_new m sh ms) maxA delay)"
| reachable_step: "reachable d \<Longrightarrow> step e d = Some d1 \<Longrightarrow> reachable d1"

text \<open>
  The daemon left alone: no external call and no event of the underlying object
  arrives.  While an attempt is suspended its next continuation runs, the hook
  settling as \<open>hook\<close> says for that attempt number; otherwise the live timeout
  fires; when neither is left the run is over.  Each step costs one unit of
  fuel, and \<open>None\<close> says that the fuel ran out.
\<close>

fun run_alone :: "nat \<Rightarrow> (int \<Rightarrow> hook_outcome) \<Rightarrow> Daemon \<Rightarrow> Daemon option" where
  "run_alone 0 hook d = None"
| "run_alone (Suc fuel) hook d =
     (case frames d of
        [] \<Rightarrow>
          (case timers d of
             [] \<Rightarrow> Some d
           | (t, n) # ts \<Rightarrow>
               (case step (TimerFires t) d of
                  None \<Rightarrow> None
                | Some d1 \<Rightarrow> run_alone fuel hook d1))
      | f # fs \<Rightarrow>
          (case step (case stage f of
                        AwaitHook \<Rightarrow>
                          (case hook (attempt f) of
                             HookOk obj \<Rightarrow> HookResolves 0 obj
                           | HookFails e \<Rightarrow> HookRejects 0 e)
                      | _ \<Rightarrow> Resume 0) d of
             None \<Rightarrow> None
           | Some d1 \<Rightarrow> run_alone fuel hook d1))"

text \<open>The configuration of the test's \<open>FakeProcess\<close>.\<close>

definition FakeProcess_meta :: UnreliableMeta where
  "FakeProcess_meta =
     \<lparr>states = \<lparr>init = ''init'', starting = ''starting'', startFailed = ''start-failed'',
                 running = ''running'', stopping = ''stopping'', stopped = ''stopped''\<rparr>,
      stateConf = \<lparr>startable = {''init'', ''start-failed'', ''stopped''},
                    stoppable = {''running'', ''stopping''},
                    abortOnDeath = [''starting'', ''running''],
                    abortOnStartFailure = [''running'', ''stopped'']\<rparr>,
      eventHandlers = [],
      deathEvents = [''exit''],
      deathErrorClass = None\<rparr>"

definition FakeProcess :: Unreliable where
  "FakeProcess = Unreliable_new FakeProcess_meta (StopEmits ''exit'' []) {}"

section \<open>Notions used in the proofs\<close>

text \<open>An Unreliable with its own listeners left out.\<close>

definition sans_listeners :: "Unreliable \<Rightarrow> Unreliable" where
  "sans_listeners u = u\<lparr>listeners := []\<rparr>"

text \<open>
  A property of the object graph is stable when the callback \<open>onStopped\<close>
  keeps it and when it does not depend on the fields of the Unreliable other
  than its listeners, of which there may become fewer.  Every method of the
  Unreliable keeps a stable property.
\<close>

definition stable :: "(Daemon \<Rightarrow> bool) \<Rightarrow> bool" where
  "stable P \<longleftrightarrow>
     (\<forall>d. P d \<longrightarrow> P (onStopped d)) \<and>
     (\<forall>d u. P d \<longrightarrow> set (listeners u) \<subseteq> set (listeners (it d)) \<longrightarrow> P (d\<lparr>it := u\<rparr>))"

text \<open>
  The invariant of the daemon: at most one timeout is live and \<open>_retryTimer\<close>
  refers to it; every listener on \<open>it\<close> has its disposable in \<open>_disposables\<close>.
\<close>

definition timer_inv :: "Daemon \<Rightarrow> bool" where
  "timer_inv d \<longleftrightarrow> length (timers d) \<le> 1 \<and> (\<forall>p \<in> set (timers d). retryTimer d = Some (fst p))"

definition listener_inv :: "Daemon \<Rightarrow> bool" where
  "listener_inv d \<longleftrightarrow> set (listeners (it d)) \<subseteq> set (d_disposables d)"

definition daemon_inv :: "Daemon \<Rightarrow> bool" where
  "daemon_inv d \<longleftrightarrow> timer_inv d \<and> listener_inv d"

text \<open>A daemon that is dead with nothing pending: no live timeout, no suspended attempt.\<close>

definition gave_up :: "Daemon \<Rightarrow> bool" where
  "gave_up d \<longleftrightarrow> d_state d = DEAD \<and> timers d = [] \<and> frames d = []"

text \<open>
  The object graphs of a daemon whose Unreliable never obtained an underlying
  object: nothing is subscribed, nobody waits, and the remaining fields are the
  parameters.  \<open>awaiting\<close> is such a graph while attempt \<open>k\<close> waits for the
  creation hook.
\<close>

definition objectless ::
  "UnreliableMeta \<Rightarrow> stop_behaviour \<Rightarrow> string set \<Rightarrow> int \<Rightarrow> int \<Rightarrow>
   string \<Rightarrow> u_effect list \<Rightarrow> DaemonStatus \<Rightarrow> (nat \<times> int) list \<Rightarrow> nat option \<Rightarrow> nat \<Rightarrow>
   frame list \<Rightarrow> d_effect list \<Rightarrow> Daemon" where
  "objectless m sh ms maxA delay us utr st tm rt nid fs tr =
     \<lparr>it = \<lparr>meta = m, u_state = us, uObj = None, u_disposables = [], obj_subs = [],
             listeners = [], waiters = [], u_trace = utr, stopHook = sh, methods = ms\<rparr>,
      maxAttempt = maxA, retryDelay = delay, retryTimer = rt, d_disposables = [],
      d_state = st, timers = tm, next_id = nid, frames = fs, d_trace = tr\<rparr>"

definition awaiting ::
  "UnreliableMeta \<Rightarrow> stop_behaviour \<Rightarrow> string set \<Rightarrow> int \<Rightarrow> int \<Rightarrow> int \<Rightarrow> nat \<Rightarrow>
   d_effect list \<Rightarrow> u_effect list \<Rightarrow> Daemon" where
  "awaiting m sh ms maxA delay k nid tr utr =
     objectless m sh ms maxA delay (starting (states m)) utr STARTING [] None nid
       [\<lparr>attempt = k, f_maxAttempt = maxA, stage = AwaitHook\<rparr>] tr"

text \<open>
  What the specification expects a daemon to broadcast after the \<open>starting\<close>
  event of attempt \<open>k\<close> when that attempt and the \<open>r\<close> attempts after it all
  fail: \<open>r\<close> rounds of a retryable failure, the scheduling of the retry and the
  \<open>starting\<close> event of the next attempt, then the terminal failure.
\<close>

fun failing_rounds :: "(int \<Rightarrow> error) \<Rightarrow> int \<Rightarrow> int \<Rightarrow> nat \<Rightarrow> d_effect list" where
  "failing_rounds errs delay k 0 =
     [Notify E_START_FAILED (StartFailed \<lparr>cause = errs k, nthAttempt = k, retryIn = - 1\<rparr>) STARTING,
      Abort E_RUNNING \<lparr>cause = errs k, nthAttempt = k, retryIn = - 1\<rparr>]"
| "failing_rounds errs delay k (Suc r) =
     [Notify E_START_FAILED (StartFailed \<lparr>cause = errs k, nthAttempt = k, retryIn = delay\<rparr>) STARTING,
      Notify E_RETRY_SCHEDULED (RetryScheduled (k + 1) delay) STARTING,
      Notify E_STARTING (Starting (k + 1)) RETRY_SCHEDULED] @
     failing_rounds errs delay (k + 1) r"

text \<open>The payloads of the \<open>start-failed\<close> broadcasts of a trace, in order.\<close>

fun start_failures :: "d_effect list \<Rightarrow> StartFailureError list" where
  "start_failures [] = []"
| "start_failures (Notify E_START_FAILED (StartFailed sf) st # es) = sf # start_failures es"
| "start_failures (e # es) = start_failures es"

text \<open>
  The object graph after a sequence of events (unchanged when the sequence
  cannot be run), and two graphs of the test's daemon used as examples: one
  whose first attempt has failed and whose retry is scheduled, and one whose
  second attempt succeeded with the underlying object \<open>7\<close>.
\<close>

definition after :: "event list \<Rightarrow> Daemon \<Rightarrow> Daemon" where
  "after es d = (case run es d of None \<Rightarrow> d | Some d1 \<Rightarrow> d1)"

definition retry_pending :: Daemon where
  "retry_pending =
     after [CallStart, HookRejects 0 (HookError ''boom''), Resume 0, Resume 0]
       (Daemon_new FakeProcess 3 2000)"

definition running_on_retry :: Daemon where
  "running_on_retry =
     after [TimerFires 0, HookResolves 0 7, Resume 0, Resume 0] retry_pending"

text \<open>
  The daemon has scheduled a retry at attempt number 1 with delay \<open>c\<close>: what
  \<open>onStopped\<close> leaves behind when the daemon is not dead.
\<close>

definition rearmed_at_one :: "int \<Rightarrow> Daemon \<Rightarrow> bool" where
  "rearmed_at_one c d \<longleftrightarrow>
     d_state d = RETRY_SCHEDULED \<and> d_disposables d = [] \<and> retryDelay d = c \<and>
     (\<exists>t. retryTimer d = Some t \<and> (t, 1) \<in> set (timers d)) \<and>
     (\<exists>pre st. d_trace d = pre @ [Notify E_RETRY_SCHEDULED (RetryScheduled 1 c) st])"

section \<open>Lemmas about the model\<close>

subsection \<open>What the callback of the daemon leaves of the Unreliable\<close>

lemma sans_listeners_fields:
  "meta u = meta (sans_listeners u)"
  "u_state u = u_state (sans_listeners u)"
  "uObj u = uObj (sans_listeners u)"
  "u_disposables u = u_disposables (sans_listeners u)"
  "obj_subs u = obj_subs (sans_listeners u)"
  "waiters u = waiters (sans_listeners u)"
  "u_trace u = u_trace (sans_listeners u)"
  "stopHook u = stopHook (sans_listeners u)"
  "methods u = methods (sans_listeners u)"
  by (simp_all add: sans_listeners_def)

lemma it_fold_D_dispose:
  "sans_listeners (it (fold D_dispose ls d)) = sans_listeners (it d)"
  by (induction ls arbitrary: d) (simp_all add: D_dispose_def sans_listeners_def)

lemma it_D_cleanUp: "sans_listeners (it (D_cleanUp d)) = sans_listeners (it d)"
  using it_fold_D_dispose [of "d_disposables d" d]
  by (simp add: D_cleanUp_def Let_def clearTimeout_def split: option.splits)

lemma it_D_scheduleRetry: "it (D_scheduleRetry n d) = it d"
  by (simp add: D_scheduleRetry_def Let_def clearTimeout_def d_notify_def split: option.splits)

lemma it_onStopped: "sans_listeners (it (onStopped d)) = sans_listeners (it d)"
  by (simp add: onStopped_def Let_def it_D_scheduleRetry it_D_cleanUp)

lemma it_fold_onStopped:
  "sans_listeners (it (fold (\<lambda>l. onStopped) ls d)) = sans_listeners (it d)"
  by (induction ls arbitrary: d) (simp_all add: it_onStopped)

lemma it_u_notify:
  "sans_listeners (it (u_notify ev ch d)) =
   sans_listeners ((it d)\<lparr>u_trace := u_trace (it d) @ [UNotify ev ch (u_state (it d))],
                          waiters := filter (\<lambda>w. w_event w \<noteq> ev) (waiters (it d))\<rparr>)"
  by (simp add: u_notify_def Let_def it_fold_onStopped) (simp add: sans_listeners_def)

lemma it_U_setState:
  "sans_listeners (it (U_setState s ex d)) =
   sans_listeners ((it d)\<lparr>u_state := s,
        u_trace := u_trace (it d) @ [UNotify s \<lparr>oldState = u_state (it d), extra = ex\<rparr> (u_state (it d))],
        waiters := filter (\<lambda>w. w_event w \<noteq> s) (waiters (it d))\<rparr>)"
proof -
  have "sans_listeners (it (U_setState s ex d)) =
        (sans_listeners (it (u_notify s \<lparr>oldState = u_state (it d), extra = ex\<rparr> d)))\<lparr>u_state := s\<rparr>"
    by (simp add: U_setState_def Let_def sans_listeners_def)
  then show ?thesis
    by (simp add: it_u_notify) (simp add: sans_listeners_def)
qed

lemma it_fold_u_abort:
  "it (fold (\<lambda>ev. u_abort ev err) evs d) =
   (it d)\<lparr>u_trace := u_trace (it d) @ map (\<lambda>ev. UAbort ev err) evs,
           waiters := filter (\<lambda>w. w_event w \<notin> set evs) (waiters (it d))\<rparr>"
proof (induction evs arbitrary: d)
  case Nil
  show ?case by simp
next
  case (Cons ev evs)
  show ?case
    by (simp add: Cons.IH) (simp add: u_abort_def conj_commute)
qed

lemma U_setState_fields:
  "u_state (it (U_setState s ex d)) = s"
  "u_trace (it (U_setState s ex d)) =
     u_trace (it d) @ [UNotify s \<lparr>oldState = u_state (it d), extra = ex\<rparr> (u_state (it d))]"
  "waiters (it (U_setState s ex d)) = filter (\<lambda>w. w_event w \<noteq> s) (waiters (it d))"
  "meta (it (U_setState s ex d)) = meta (it d)"
  "uObj (it (U_setState s ex d)) = uObj (it d)"
  "u_disposables (it (U_setState s ex d)) = u_disposables (it d)"
  "obj_subs (it (U_setState s ex d)) = obj_subs (it d)"
  "stopHook (it (U_setState s ex d)) = stopHook (it d)"
  "methods (it (U_setState s ex d)) = methods (it d)"
  using arg_cong [OF it_U_setState, of u_state s ex d]
        arg_cong [OF it_U_setState, of u_trace s ex d]
        arg_cong [OF it_U_setState, of waiters s ex d]
        arg_cong [OF it_U_setState, of meta s ex d]
        arg_cong [OF it_U_setState, of uObj s ex d]
        arg_cong [OF it_U_setState, of u_disposables s ex d]
        arg_cong [OF it_U_setState, of obj_subs s ex d]
        arg_cong [OF it_U_setState, of stopHook s ex d]
        arg_cong [OF it_U_setState, of methods s ex d]
  by (simp_all add: sans_listeners_def)

subsection \<open>Stable properties are kept by the methods of the Unreliable\<close>

lemma stable_onStopped: "stable P \<Longrightarrow> P d \<Longrightarrow> P (onStopped d)"
  by (simp add: stable_def)

lemma stable_it:
  "stable P \<Longrightarrow> P d \<Longrightarrow> set (listeners u) \<subseteq> set (listeners (it d)) \<Longrightarrow> P (d\<lparr>it := u\<rparr>)"
  by (simp add: stable_def)

lemma stable_fold_onStopped:
  "stable P \<Longrightarrow> P d \<Longrightarrow> P (fold (\<lambda>l. onStopped) ls d)"
  by (induction ls arbitrary: d) (simp_all add: stable_onStopped)

lemma stable_u_notify:
  assumes "stable P" and "P d"
  shows "P (u_notify ev ch d)"
proof -
  let ?u1 = "(it d)\<lparr>u_trace := u_trace (it d) @ [UNotify ev ch (u_state (it d))],
                 waiters := filter (\<lambda>w. w_event w \<noteq> ev) (waiters (it d)),
                 listeners := filter (\<lambda>(e, i). e \<noteq> ev) (listeners (it d))\<rparr>"
  have "P (d\<lparr>it := ?u1\<rparr>)"
    by (rule stable_it [OF assms]) auto
  then have "P (fold (\<lambda>l. onStopped) (filter (\<lambda>(e, i). e = ev) (listeners (it d))) (d\<lparr>it := ?u1\<rparr>))"
    by (rule stable_fold_onStopped [OF assms(1)])
  then show ?thesis
    by (simp add: u_notify_def Let_def)
qed

lemma stable_U_setState:
  assumes "stable P" and "P d"
  shows "P (U_setState s ex d)"
  unfolding U_setState_def Let_def
  by (rule stable_it [OF assms(1) stable_u_notify [OF assms]]) simp

lemma stable_u_abort:
  assumes "stable P" and "P d"
  shows "P (u_abort ev err d)"
  unfolding u_abort_def by (rule stable_it [OF assms]) simp

lemma stable_u_abortAll:
  assumes "stable P" and "P d"
  shows "P (u_abortAll err d)"
  unfolding u_abortAll_def by (rule stable_it [OF assms]) simp

lemma stable_U_dispose:
  assumes "stable P" and "P d"
  shows "P (U_dispose s d)"
  unfolding U_dispose_def by (rule stable_it [OF assms]) simp

lemma stable_fold_U_dispose:
  "stable P \<Longrightarrow> P d \<Longrightarrow> P (fold U_dispose ss d)"
  by (induction ss arbitrary: d) (simp_all add: stable_U_dispose)

lemma stable_fold_u_abort:
  "stable P \<Longrightarrow> P d \<Longrightarrow> P (fold (\<lambda>ev. u_abort ev err) evs d)"
  by (induction evs arbitrary: d) (simp_all add: stable_u_abort)

lemma stable_U_onDeath:
  assumes "stable P" and "P d"
  shows "P (U_onDeath reason d)"
proof -
  let ?d1 = "U_setState (stopped (states (meta (it d)))) (Reason reason) d"
  let ?d2 = "?d1\<lparr>it := (it ?d1)\<lparr>uObj := None\<rparr>\<rparr>"
  let ?d3 = "fold U_dispose (u_disposables (it ?d2)) ?d2"
  let ?d4 = "?d3\<lparr>it := (it ?d3)\<lparr>u_disposables := []\<rparr>\<rparr>"
  have 1: "P ?d1" by (rule stable_U_setState [OF assms])
  have 2: "P ?d2" by (rule stable_it [OF assms(1) 1]) simp
  have 3: "P ?d3" by (rule stable_fold_U_dispose [OF assms(1) 2])
  have 4: "P ?d4" by (rule stable_it [OF assms(1) 3]) simp
  have "P (fold (\<lambda>ev. u_abort ev (new_deathError (meta (it d)) (uObj (it d)) reason))
             (abortOnDeath (stateConf (meta (it d)))) ?d4)"
    by (rule stable_fold_u_abort [OF assms(1) 4])
  then show ?thesis
    by (simp add: U_onDeath_def Let_def)
qed

lemma stable_run_handler:
  assumes "stable P" and "P d"
  shows "P (run_handler hdl a d)"
  by (cases hdl) (simp_all add: assms stable_U_onDeath U_onError_def stable_u_abortAll)

lemma stable_obj_emit:
  assumes "stable P" and "P d"
  shows "P (obj_emit h ev a d)"
proof -
  have "P (fold (\<lambda>(h', ev', hdl). run_handler hdl a) ss d)" for ss
    using assms(2)
    by (induction ss arbitrary: d) (auto simp: stable_run_handler [OF assms(1)])
  then show ?thesis
    by (simp add: obj_emit_def)
qed

lemma stable_U__stop:
  assumes "stable P" and "P d"
  shows "P (snd (U__stop d))"
  by (simp add: U__stop_def assms stable_obj_emit split: stop_behaviour.splits option.splits)

lemma stable_U_stop:
  assumes "stable P" and "P d"
  shows "P (snd (U_stop d))"
  by (simp add: U_stop_def assms stable_U__stop stable_U_setState)

lemma stable_U__start_sync:
  assumes "stable P" and "P d"
  shows "P (snd (U__start_sync d))"
  by (simp add: U__start_sync_def assms stable_U_setState)

lemma stable_register_handlers:
  assumes "stable P" and "P d"
  shows "P (snd (register_handlers obj hs d))"
  using assms(2)
proof (induction hs arbitrary: d)
  case Nil
  then show ?case by simp
next
  case (Cons p hs)
  obtain ev name where p: "p = (ev, name)" by (cases p)
  have "P (d\<lparr>it := (it d)\<lparr>u_disposables := u_disposables (it d) @ [(obj, ev, Aux name)],
                           obj_subs := obj_subs (it d) @ [(obj, ev, Aux name)]\<rparr>\<rparr>)"
    by (rule stable_it [OF assms(1) Cons.prems]) simp
  then show ?case
    using Cons.prems by (simp add: p Cons.IH)
qed

lemma stable_U__start_resume:
  assumes "stable P" and "P d"
  shows "P (snd (U__start_resume obj d))"
proof -
  let ?d1 = "d\<lparr>it := (it d)\<lparr>uObj := Some obj\<rparr>\<rparr>"
  let ?d2 = "U_setState (running (states (meta (it d)))) NoExtra ?d1"
  let ?subs = "(obj, ''error'', OnError) # map (\<lambda>ev. (obj, ev, OnDeath)) (deathEvents (meta (it d)))"
  let ?d3 = "?d2\<lparr>it := (it ?d2)\<lparr>u_disposables := u_disposables (it ?d2) @ ?subs,
                                 obj_subs := obj_subs (it ?d2) @ ?subs\<rparr>\<rparr>"
  have 1: "P ?d1" by (rule stable_it [OF assms]) simp
  have 2: "P ?d2" by (rule stable_U_setState [OF assms(1) 1])
  have 3: "P ?d3" by (rule stable_it [OF assms(1) 2]) simp
  show ?thesis
    by (simp add: U__start_resume_def Let_def stable_register_handlers [OF assms(1) 3])
qed

lemma stable_U_start_catch:
  assumes "stable P" and "P d"
  shows "P (snd (U_start_catch err d))"
proof -
  have "P (fold (\<lambda>ev. u_abort ev err) (abortOnStartFailure (stateConf (meta (it d)))) d)"
    by (rule stable_fold_u_abort [OF assms])
  then show ?thesis
    by (simp add: U_start_catch_def Let_def stable_U_setState [OF assms(1)])
qed

subsection \<open>The invariant of the daemon\<close>

lemma timer_inv_no_timer: "timer_inv d \<Longrightarrow> retryTimer d = None \<Longrightarrow> timers d = []"
  by (cases "timers d") (auto simp: timer_inv_def)

lemma timer_inv_clear:
  "timer_inv d \<Longrightarrow> retryTimer d = Some t \<Longrightarrow> filter (\<lambda>(i, n). i \<noteq> t) (timers d) = []"
  by (auto simp: timer_inv_def filter_empty_conv)

lemma listeners_fold_D_dispose:
  "listeners (it (fold D_dispose ls d)) = filter (\<lambda>l. l \<notin> set ls) (listeners (it d))"
proof (induction ls arbitrary: d)
  case Nil
  show ?case by simp
next
  case (Cons l ls)
  have "filter (\<lambda>x. x \<notin> set ls) (removeAll l xs) = filter (\<lambda>x. x \<notin> set (l # ls)) xs" for xs
    by (induction xs) auto
  moreover have "listeners (it (D_dispose l d)) = removeAll l (listeners (it d))"
    by (simp add: D_dispose_def)
  ultimately show ?case
    by (simp add: Cons.IH)
qed

lemma rest_fold_D_dispose:
  "timers (fold D_dispose ls d) = timers d"
  "retryTimer (fold D_dispose ls d) = retryTimer d"
  "d_disposables (fold D_dispose ls d) = d_disposables d"
  "d_state (fold D_dispose ls d) = d_state d"
  "d_trace (fold D_dispose ls d) = d_trace d"
  "next_id (fold D_dispose ls d) = next_id d"
  "frames (fold D_dispose ls d) = frames d"
  "maxAttempt (fold D_dispose ls d) = maxAttempt d"
  "retryDelay (fold D_dispose ls d) = retryDelay d"
  by (induction ls arbitrary: d) (simp_all add: D_dispose_def)

lemma D_cleanUp_fields:
  "d_disposables (D_cleanUp d) = []"
  "retryTimer (D_cleanUp d) = None"
  "d_state (D_cleanUp d) = d_state d"
  "d_trace (D_cleanUp d) = d_trace d"
  "next_id (D_cleanUp d) = next_id d"
  "frames (D_cleanUp d) = frames d"
  "maxAttempt (D_cleanUp d) = maxAttempt d"
  "retryDelay (D_cleanUp d) = retryDelay d"
  "listeners (it (D_cleanUp d)) = filter (\<lambda>l. l \<notin> set (d_disposables d)) (listeners (it d))"
  by (simp_all add: D_cleanUp_def Let_def clearTimeout_def rest_fold_D_dispose
        listeners_fold_D_dispose split: option.splits)

lemma timers_D_cleanUp:
  "timer_inv d \<Longrightarrow> timers (D_cleanUp d) = []"
  by (auto simp: D_cleanUp_def Let_def clearTimeout_def rest_fold_D_dispose
        timer_inv_no_timer timer_inv_clear split: option.splits)

lemma inv_D_cleanUp: "daemon_inv d \<Longrightarrow> daemon_inv (D_cleanUp d)"
  by (simp add: daemon_inv_def) (auto simp: timer_inv_def listener_inv_def timers_D_cleanUp D_cleanUp_fields)

lemma D_scheduleRetry_fields:
  "d_disposables (D_scheduleRetry n d) = d_disposables d"
  "retryTimer (D_scheduleRetry n d) = Some (next_id d)"
  "d_state (D_scheduleRetry n d) = RETRY_SCHEDULED"
  "d_trace (D_scheduleRetry n d) =
     d_trace d @ [Notify E_RETRY_SCHEDULED (RetryScheduled n (retryDelay d)) (d_state d)]"
  "next_id (D_scheduleRetry n d) = Suc (next_id d)"
  "frames (D_scheduleRetry n d) = frames d"
  "maxAttempt (D_scheduleRetry n d) = maxAttempt d"
  "retryDelay (D_scheduleRetry n d) = retryDelay d"
  "it (D_scheduleRetry n d) = it d"
  by (simp_all add: D_scheduleRetry_def Let_def clearTimeout_def d_notify_def split: option.splits)

lemma timers_D_scheduleRetry:
  "timer_inv d \<Longrightarrow> timers (D_scheduleRetry n d) = [(next_id d, n)]"
  by (auto simp: D_scheduleRetry_def Let_def clearTimeout_def d_notify_def
        timer_inv_no_timer timer_inv_clear split: option.splits)

lemma inv_D_scheduleRetry: "daemon_inv d \<Longrightarrow> daemon_inv (D_scheduleRetry n d)"
  by (simp add: daemon_inv_def)
     (auto simp: timer_inv_def [of "D_scheduleRetry n d"] listener_inv_def timers_D_scheduleRetry
        D_scheduleRetry_fields)

lemma inv_onStopped: "daemon_inv d \<Longrightarrow> daemon_inv (onStopped d)"
  by (simp add: onStopped_def Let_def inv_D_cleanUp inv_D_scheduleRetry)

lemma stable_D_waitForDeath:
  assumes "stable P" and "P d"
  shows "P (snd (D_waitForDeath timeout signal d))"
proof -
  have "P (d\<lparr>it := (it d)\<lparr>waiters := waiters (it d) @ [w]\<rparr>\<rparr>)" for w
    by (rule stable_it [OF assms]) simp
  then show ?thesis
    using assms(2) by (simp add: D_waitForDeath_def U_waitForState_def u_waitFor_def)
qed

lemma stable_inv: "stable daemon_inv"
  by (auto simp: stable_def inv_onStopped) (auto simp: daemon_inv_def timer_inv_def listener_inv_def)

lemma inv_eqI:
  "daemon_inv d \<Longrightarrow> timers d' = timers d \<Longrightarrow> retryTimer d' = retryTimer d \<Longrightarrow>
   listeners (it d') = listeners (it d) \<Longrightarrow> d_disposables d' = d_disposables d \<Longrightarrow> daemon_inv d'"
  by (simp add: daemon_inv_def timer_inv_def listener_inv_def)

lemma inv_clear_timer:
  assumes "daemon_inv d"
  shows "daemon_inv (case retryTimer d of None \<Rightarrow> d | Some t \<Rightarrow> (clearTimeout t d)\<lparr>retryTimer := None\<rparr>)"
proof (cases "retryTimer d")
  case None
  then show ?thesis using assms by simp
next
  case (Some t)
  have "filter (\<lambda>(i, n). i \<noteq> t) (timers d) = []"
    using Some assms by (simp add: daemon_inv_def timer_inv_clear)
  then show ?thesis
    using Some assms by (simp add: daemon_inv_def timer_inv_def listener_inv_def clearTimeout_def)
qed

lemma timers_clear_timer:
  "daemon_inv d \<Longrightarrow>
   timers (case retryTimer d of None \<Rightarrow> d | Some t \<Rightarrow> (clearTimeout t d)\<lparr>retryTimer := None\<rparr>) = []"
  by (auto simp: daemon_inv_def clearTimeout_def timer_inv_no_timer timer_inv_clear split: option.splits)

lemma inv_D__start_sync:
  assumes "daemon_inv d"
  shows "daemon_inv (D__start_sync n d)"
proof (cases "dead d")
  case True
  then show ?thesis by (simp add: D__start_sync_def assms)
next
  case False
  let ?d1 = "case retryTimer d of None \<Rightarrow> d | Some t \<Rightarrow> (clearTimeout t d)\<lparr>retryTimer := None\<rparr>"
  let ?d4 = "(d_notify E_STARTING (Starting n) (D_cleanUp ?d1))\<lparr>d_state := STARTING\<rparr>"
  have "daemon_inv (D_cleanUp ?d1)"
    by (rule inv_D_cleanUp [OF inv_clear_timer [OF assms]])
  then have "daemon_inv ?d4"
    by (rule inv_eqI) (simp_all add: d_notify_def)
  then have 5: "daemon_inv (snd (U__start_sync ?d4))"
    by (rule stable_U__start_sync [OF stable_inv])
  show ?thesis
    using False
    by (auto simp: D__start_sync_def Let_def split: prod.splits intro: inv_eqI [OF 5])
qed

lemma inv_D__start_success:
  assumes "daemon_inv d"
  shows "daemon_inv (D__start_success d)"
  using assms
  by (auto simp: D__start_success_def Let_def d_notify_def daemon_inv_def timer_inv_def listener_inv_def)

lemma inv_D__start_catch:
  assumes "daemon_inv d"
  shows "daemon_inv (D__start_catch n maxA err d)"
proof -
  let ?d1 = "if U_stoppable (it d) then snd (U_stop d) else d"
  have 1: "daemon_inv ?d1"
    by (simp add: assms stable_U_stop [OF stable_inv])
  have 2: "daemon_inv (d_abort ev sf ((d_notify ev' arg ?d1)\<lparr>d_state := DEAD\<rparr>))" for ev sf ev' arg
    by (rule inv_eqI [OF 1]) (simp_all add: d_abort_def d_notify_def)
  have 3: "daemon_inv (D_scheduleRetry k (d_notify ev' arg ?d1))" for k ev' arg
    by (rule inv_D_scheduleRetry, rule inv_eqI [OF 1]) (simp_all add: d_notify_def)
  show ?thesis
    unfolding D__start_catch_def Let_def
    using 1 2 3 by presburger
qed

lemma inv_D_start: "daemon_inv d \<Longrightarrow> daemon_inv (D_start d)"
  unfolding D_start_def
  by (rule inv_D__start_sync, erule inv_eqI) simp_all

lemma inv_D_stop:
  assumes "daemon_inv d"
  shows "daemon_inv (D_stop d)"
proof -
  have "daemon_inv (d\<lparr>d_state := DEAD\<rparr>)"
    by (rule inv_eqI [OF assms]) simp_all
  then have "daemon_inv (D_cleanUp (d\<lparr>d_state := DEAD\<rparr>))"
    by (rule inv_D_cleanUp)
  then have "daemon_inv (case retryTimer (D_cleanUp (d\<lparr>d_state := DEAD\<rparr>)) of
                    None \<Rightarrow> D_cleanUp (d\<lparr>d_state := DEAD\<rparr>)
                  | Some t \<Rightarrow> (clearTimeout t (D_cleanUp (d\<lparr>d_state := DEAD\<rparr>)))\<lparr>retryTimer := None\<rparr>)"
    by (rule inv_clear_timer)
  then show ?thesis
    unfolding D_stop_def Let_def by (rule stable_U_stop [OF stable_inv])
qed

lemma inv_timer_callback:
  assumes "daemon_inv d" and "map_of (timers d) t = Some n"
  shows "daemon_inv (timer_callback t n d)"
proof -
  have "(t, n) \<in> set (timers d)"
    by (rule map_of_SomeD [OF assms(2)])
  then have "filter (\<lambda>(i, k). i \<noteq> t) (timers d) = []"
    using assms(1) by (cases "timers d") (auto simp: daemon_inv_def timer_inv_def)
  then have "daemon_inv ((d\<lparr>timers := filter (\<lambda>(i, k). i \<noteq> t) (timers d)\<rparr>)\<lparr>retryTimer := None\<rparr>)"
    using assms(1) by (simp add: daemon_inv_def timer_inv_def listener_inv_def)
  then show ?thesis
    unfolding timer_callback_def by (rule inv_D__start_sync)
qed

lemma inv_set_stage: "daemon_inv d \<Longrightarrow> daemon_inv (set_stage i s d)"
  by (erule inv_eqI) (simp_all add: set_stage_def)

lemma inv_drop_frame: "daemon_inv d \<Longrightarrow> daemon_inv (drop_frame i d)"
  by (erule inv_eqI) (simp_all add: drop_frame_def)

lemma inv_step:
  assumes "daemon_inv d" and "step e d = Some d1"
  shows "daemon_inv d1"
proof (cases e)
  case CallStart
  then show ?thesis using assms by (auto simp: inv_D_start)
next
  case CallStop
  then show ?thesis using assms by (auto simp: inv_D_stop)
next
  case (CallWaitForDeath timeout signal)
  then show ?thesis using assms by (auto simp: stable_D_waitForDeath [OF stable_inv])
next
  case (TimerFires t)
  then show ?thesis using assms by (auto simp: inv_timer_callback split: option.splits)
next
  case (HookResolves i obj)
  have "daemon_inv d'" if "U__start_resume obj d = (r, d')" for r d'
    using stable_U__start_resume [OF stable_inv assms(1), of obj] that by simp
  then show ?thesis
    using assms HookResolves
    by (auto simp: inv_set_stage split: if_splits prod.splits option.splits)
next
  case (HookRejects i err)
  then show ?thesis using assms by (auto simp: inv_set_stage split: if_splits)
next
  case (Resume i)
  have "daemon_inv d'" if "U_start_catch err d = (e', d')" for err e' d'
    using stable_U_start_catch [OF stable_inv assms(1), of err] that by simp
  then show ?thesis
    using assms Resume
    by (auto simp: inv_set_stage inv_drop_frame inv_D__start_catch inv_D__start_success
          split: if_splits prod.splits stage.splits)
next
  case (ObjEmits h ev a)
  then show ?thesis using assms by (auto simp: stable_obj_emit [OF stable_inv])
qed

lemma inv_Daemon_new: "daemon_inv (Daemon_new (Unreliable_new m sh ms) maxA delay)"
  by (simp add: daemon_inv_def timer_inv_def listener_inv_def Daemon_new_def Unreliable_new_def)

lemma reachable_inv: "reachable d \<Longrightarrow> daemon_inv d"
  by (induction rule: reachable.induct) (auto simp: inv_Daemon_new intro: inv_step)

subsection \<open>A daemon whose resource never starts\<close>

lemma objectless_new:
  "Daemon_new (Unreliable_new m sh ms) maxA delay =
   objectless m sh ms maxA delay (init (states m)) [] INIT [] None 0 [] []"
  by (simp add: Daemon_new_def Unreliable_new_def objectless_def)

lemma objectless_D__start_sync:
  assumes "us \<in> startable (stateConf m)" and "st \<noteq> DEAD"
  shows "D__start_sync n (objectless m sh ms maxA delay us utr st [] None nid fs tr) =
         objectless m sh ms maxA delay (starting (states m))
           (utr @ [UNotify (starting (states m)) \<lparr>oldState = us, extra = NoExtra\<rparr> us])
           STARTING [] None nid
           (fs @ [\<lparr>attempt = n, f_maxAttempt = maxA, stage = AwaitHook\<rparr>])
           (tr @ [Notify E_STARTING (Starting n) st])"
  using assms
  by (simp add: D__start_sync_def objectless_def dead_def D_cleanUp_def d_notify_def
        U__start_sync_def U_startable_def U_setState_def u_notify_def Let_def)

lemma objectless_U_start_catch:
  "U_start_catch e (objectless m sh ms maxA delay us utr st tm rt nid fs tr) =
   (e, objectless m sh ms maxA delay (startFailed (states m))
         (utr @ map (\<lambda>ev. UAbort ev e) (abortOnStartFailure (stateConf m)) @
          [UNotify (startFailed (states m)) \<lparr>oldState = us, extra = Err e\<rparr> us])
         st tm rt nid fs tr)"
proof -
  have "fold (\<lambda>ev. u_abort ev e) evs (objectless m sh ms maxA delay us utr st tm rt nid fs tr) =
        objectless m sh ms maxA delay us (utr @ map (\<lambda>ev. UAbort ev e) evs) st tm rt nid fs tr" for evs
    by (induction evs arbitrary: utr) (simp_all add: u_abort_def objectless_def)
  then show ?thesis
    by (simp add: U_start_catch_def Let_def)
       (simp add: objectless_def U_setState_def u_notify_def Let_def)
qed

lemma objectless_U_stop:
  "snd (U_stop (objectless m sh ms maxA delay us utr st tm rt nid fs tr)) =
   objectless m sh ms maxA delay us utr st tm rt nid fs tr"
  by (simp add: U_stop_def objectless_def)

lemma objectless_D__start_catch_retry:
  assumes "n < maxA'" and "st \<noteq> DEAD"
  shows "D__start_catch n maxA' e (objectless m sh ms maxA delay us utr st [] None nid fs tr) =
         objectless m sh ms maxA delay us utr RETRY_SCHEDULED [(nid, n + 1)] (Some nid) (Suc nid) fs
           (tr @ [Notify E_START_FAILED (StartFailed \<lparr>cause = e, nthAttempt = n, retryIn = delay\<rparr>) st,
                  Notify E_RETRY_SCHEDULED (RetryScheduled (n + 1) delay) st])"
proof -
  let ?d = "objectless m sh ms maxA delay us utr st [] None nid fs tr"
  have "(if U_stoppable (it ?d) then snd (U_stop ?d) else ?d) = ?d"
    by (simp add: objectless_U_stop)
  then show ?thesis
    using assms
    by (simp add: D__start_catch_def Let_def)
       (simp add: objectless_def dead_def d_notify_def D_scheduleRetry_def Let_def)
qed

lemma objectless_D__start_catch_final:
  assumes "n \<ge> maxA'"
  shows "D__start_catch n maxA' e (objectless m sh ms maxA delay us utr st tm rt nid fs tr) =
         objectless m sh ms maxA delay us utr DEAD tm rt nid fs
           (tr @ [Notify E_START_FAILED (StartFailed \<lparr>cause = e, nthAttempt = n, retryIn = - 1\<rparr>) st,
                  Abort E_RUNNING \<lparr>cause = e, nthAttempt = n, retryIn = - 1\<rparr>])"
proof -
  let ?d = "objectless m sh ms maxA delay us utr st tm rt nid fs tr"
  have "(if U_stoppable (it ?d) then snd (U_stop ?d) else ?d) = ?d"
    by (simp add: objectless_U_stop)
  then show ?thesis
    using assms
    by (simp add: D__start_catch_def Let_def)
       (simp add: objectless_def d_notify_def d_abort_def)
qed

lemma objectless_frames [simp]:
  "frames (objectless m sh ms maxA delay us utr st tm rt nid fs tr) = fs"
  "timers (objectless m sh ms maxA delay us utr st tm rt nid fs tr) = tm"
  by (simp_all add: objectless_def)

lemma objectless_set_stage:
  "set_stage 0 s (objectless m sh ms maxA delay us utr st tm rt nid [f] tr) =
   objectless m sh ms maxA delay us utr st tm rt nid [f\<lparr>stage := s\<rparr>] tr"
  by (simp add: set_stage_def objectless_def)

lemma objectless_drop_frame:
  "drop_frame 0 (objectless m sh ms maxA delay us utr st tm rt nid [f] tr) =
   objectless m sh ms maxA delay us utr st tm rt nid [] tr"
  by (simp add: drop_frame_def objectless_def)

lemma objectless_timer_callback:
  assumes "us \<in> startable (stateConf m)"
  shows "timer_callback t n (objectless m sh ms maxA delay us utr RETRY_SCHEDULED [(t, n)] (Some t) nid [] tr) =
         awaiting m sh ms maxA delay n nid (tr @ [Notify E_STARTING (Starting n) RETRY_SCHEDULED])
           (utr @ [UNotify (starting (states m)) \<lparr>oldState = us, extra = NoExtra\<rparr> us])"
proof -
  have "(objectless m sh ms maxA delay us utr RETRY_SCHEDULED [(t, n)] (Some t) nid [] tr)
          \<lparr>timers := filter (\<lambda>(i, k). i \<noteq> t) [(t, n)]\<rparr>\<lparr>retryTimer := None\<rparr> =
        objectless m sh ms maxA delay us utr RETRY_SCHEDULED [] None nid [] tr"
    by (simp add: objectless_def)
  then show ?thesis
    using assms by (simp add: timer_callback_def awaiting_def objectless_D__start_sync)
qed

lemma failing_round:
  assumes "k < maxA" and "startFailed (states m) \<in> startable (stateConf m)"
  shows "run_alone (Suc (Suc (Suc (Suc fuel)))) (\<lambda>n. HookFails (errs n))
           (awaiting m sh ms maxA delay k nid tr utr) =
         run_alone fuel (\<lambda>n. HookFails (errs n))
           (awaiting m sh ms maxA delay (k + 1) (Suc nid)
              (tr @ [Notify E_START_FAILED (StartFailed \<lparr>cause = errs k, nthAttempt = k, retryIn = delay\<rparr>) STARTING,
                     Notify E_RETRY_SCHEDULED (RetryScheduled (k + 1) delay) STARTING,
                     Notify E_STARTING (Starting (k + 1)) RETRY_SCHEDULED])
              (utr @ map (\<lambda>ev. UAbort ev (errs k)) (abortOnStartFailure (stateConf m)) @
               [UNotify (startFailed (states m))
                  \<lparr>oldState = starting (states m), extra = Err (errs k)\<rparr> (starting (states m)),
                UNotify (starting (states m))
                  \<lparr>oldState = startFailed (states m), extra = NoExtra\<rparr> (startFailed (states m))]))"
  using assms
  by (simp add: awaiting_def objectless_set_stage objectless_drop_frame objectless_U_start_catch
        objectless_D__start_catch_retry objectless_timer_callback [unfolded awaiting_def])

lemma failing_final_round:
  assumes "maxA \<le> k"
  shows "run_alone (Suc (Suc (Suc (Suc fuel)))) (\<lambda>n. HookFails (errs n))
           (awaiting m sh ms maxA delay k nid tr utr) =
         Some (objectless m sh ms maxA delay (startFailed (states m))
                 (utr @ map (\<lambda>ev. UAbort ev (errs k)) (abortOnStartFailure (stateConf m)) @
                  [UNotify (startFailed (states m))
                     \<lparr>oldState = starting (states m), extra = Err (errs k)\<rparr> (starting (states m))])
                 DEAD [] None nid [] (tr @ failing_rounds errs delay k 0))"
  using assms
  by (simp add: awaiting_def objectless_set_stage objectless_drop_frame objectless_U_start_catch
        objectless_D__start_catch_final)

lemma failing_rounds_run:
  assumes "startFailed (states m) \<in> startable (stateConf m)"
  shows "\<exists>utr' nid'. run_alone (4 * Suc r) (\<lambda>n. HookFails (errs n))
           (awaiting m sh ms (k + int r) delay k nid tr utr) =
         Some (objectless m sh ms (k + int r) delay (startFailed (states m)) utr' DEAD [] None nid' []
                 (tr @ failing_rounds errs delay k r))"
proof (induction r arbitrary: k nid tr utr)
  case 0
  have fuel0: "4 * Suc 0 = Suc (Suc (Suc (Suc 0)))" by simp
  show ?case
    unfolding fuel0
    apply (intro exI)
    apply (simp only: of_nat_0 add_0_right)
    apply (rule failing_final_round)
    apply simp
    done
next
  case (Suc r)
  let ?tr = "tr @ [Notify E_START_FAILED (StartFailed \<lparr>cause = errs k, nthAttempt = k, retryIn = delay\<rparr>) STARTING,
                     Notify E_RETRY_SCHEDULED (RetryScheduled (k + 1) delay) STARTING,
                     Notify E_STARTING (Starting (k + 1)) RETRY_SCHEDULED]"
  let ?utr = "utr @ map (\<lambda>ev. UAbort ev (errs k)) (abortOnStartFailure (stateConf m)) @
               [UNotify (startFailed (states m))
                  \<lparr>oldState = starting (states m), extra = Err (errs k)\<rparr> (starting (states m)),
                UNotify (starting (states m))
                  \<lparr>oldState = startFailed (states m), extra = NoExtra\<rparr> (startFailed (states m))]"
  have eq: "k + int (Suc r) = (k + 1) + int r" by simp
  have fuel: "4 * Suc (Suc r) = Suc (Suc (Suc (Suc (4 * Suc r))))" by simp
  have lt: "k < k + int (Suc r)" by simp
  have 1:
    "run_alone (4 * Suc (Suc r)) (\<lambda>n. HookFails (errs n)) (awaiting m sh ms (k + int (Suc r)) delay k nid tr utr) =
     run_alone (4 * Suc r) (\<lambda>n. HookFails (errs n)) (awaiting m sh ms (k + int (Suc r)) delay (k + 1) (Suc nid) ?tr ?utr)"
    unfolding fuel by (rule failing_round [OF lt assms])
  obtain utr' nid' where 2:
    "run_alone (4 * Suc r) (\<lambda>n. HookFails (errs n)) (awaiting m sh ms ((k + 1) + int r) delay (k + 1) (Suc nid) ?tr ?utr) =
     Some (objectless m sh ms ((k + 1) + int r) delay (startFailed (states m)) utr' DEAD [] None nid' []
             (?tr @ failing_rounds errs delay (k + 1) r))"
    using Suc.IH [of "k + 1" "Suc nid" ?tr ?utr] by blast
  show ?case
    unfolding 1 using 2 unfolding eq by auto
qed

lemma run_alone_more_fuel:
  "run_alone f hook d = Some d' \<Longrightarrow> run_alone (f + x) hook d = Some d'"
proof (induction f arbitrary: d)
  case 0
  then show ?case by simp
next
  case (Suc f)
  then show ?case
    by (auto split: list.splits option.splits prod.splits)
qed

subsection \<open>Properties kept by the best-effort stop; dead for good\<close>

lemma timers_D_cleanUp_empty: "timers d = [] \<Longrightarrow> timers (D_cleanUp d) = []"
  by (simp add: D_cleanUp_def Let_def clearTimeout_def rest_fold_D_dispose split: option.splits)

lemma stable_not_dead: "stable (\<lambda>d. \<not> dead d)"
  by (simp add: stable_def onStopped_def Let_def dead_def D_cleanUp_fields D_scheduleRetry_fields)

lemma stable_retryDelay: "stable (\<lambda>d. retryDelay d = c)"
  by (simp add: stable_def onStopped_def Let_def D_cleanUp_fields D_scheduleRetry_fields)

lemma stable_trace_grows: "stable (\<lambda>x. \<exists>s. d_trace x = tr @ s)"
  by (auto simp: stable_def onStopped_def Let_def D_cleanUp_fields D_scheduleRetry_fields)

lemma stable_gave_up: "stable gave_up"
  by (simp add: stable_def gave_up_def onStopped_def Let_def dead_def D_cleanUp_fields
        timers_D_cleanUp_empty)

lemma gave_up_D_stop:
  assumes "gave_up d"
  shows "gave_up (D_stop d)"
proof -
  let ?d2 = "D_cleanUp (d\<lparr>d_state := DEAD\<rparr>)"
  have "gave_up ?d2"
    using assms by (simp add: gave_up_def D_cleanUp_fields timers_D_cleanUp_empty)
  then have "gave_up (case retryTimer ?d2 of None \<Rightarrow> ?d2
                       | Some t \<Rightarrow> (clearTimeout t ?d2)\<lparr>retryTimer := None\<rparr>)"
    by (simp add: gave_up_def clearTimeout_def split: option.splits)
  then show ?thesis
    unfolding D_stop_def Let_def by (rule stable_U_stop [OF stable_gave_up])
qed

lemma gave_up_step:
  assumes "gave_up d" and "step e d = Some d1" and "e \<noteq> CallStart"
  shows "gave_up d1"
proof (cases e)
  case CallStart
  then show ?thesis using assms by simp
next
  case CallStop
  then show ?thesis using assms by (auto simp: gave_up_D_stop)
next
  case (CallWaitForDeath timeout signal)
  then show ?thesis using assms by (auto simp: stable_D_waitForDeath [OF stable_gave_up])
next
  case (TimerFires t)
  then show ?thesis using assms by (simp add: gave_up_def)
next
  case (HookResolves i obj)
  then show ?thesis using assms by (simp add: gave_up_def)
next
  case (HookRejects i err)
  then show ?thesis using assms by (simp add: gave_up_def)
next
  case (Resume i)
  then show ?thesis using assms by (simp add: gave_up_def)
next
  case (ObjEmits h ev a)
  then show ?thesis using assms by (auto simp: stable_obj_emit [OF stable_gave_up])
qed

lemma gave_up_run:
  "gave_up d \<Longrightarrow> CallStart \<notin> set es \<Longrightarrow> run es d = Some d1 \<Longrightarrow> gave_up d1"
proof (induction es arbitrary: d)
  case Nil
  then show ?case by simp
next
  case (Cons e es)
  then show ?case
    by (auto split: option.splits dest: gave_up_step)
qed

lemma length_start_failures_failing_rounds:
  "length (start_failures (failing_rounds errs delay k r)) = Suc r"
  by (induction r arbitrary: k) simp_all

lemma retryIn_start_failures_failing_rounds:
  "map retryIn (start_failures (failing_rounds errs delay k r)) = replicate r delay @ [- 1]"
  by (induction r arbitrary: k) simp_all

subsection \<open>The death of the resource\<close>


lemma fold_U_dispose:
  "fold U_dispose ss d = d\<lparr>it := (it d)\<lparr>obj_subs := fold remove1 ss (obj_subs (it d))\<rparr>\<rparr>"
proof (induction ss arbitrary: d)
  case Nil
  show ?case by simp
next
  case (Cons s ss)
  have "U_dispose s d = d\<lparr>it := (it d)\<lparr>obj_subs := remove1 s (obj_subs (it d))\<rparr>\<rparr>"
    by (simp add: U_dispose_def)
  then show ?case
    by (simp add: Cons.IH)
qed

lemma fold_u_abort:
  "fold (\<lambda>ev. u_abort ev err) evs d = d\<lparr>it := it (fold (\<lambda>ev. u_abort ev err) evs d)\<rparr>"
proof (induction evs arbitrary: d)
  case Nil
  show ?case by simp
next
  case (Cons ev evs)
  have "fold (\<lambda>ev. u_abort ev err) (ev # evs) d = fold (\<lambda>ev. u_abort ev err) evs (u_abort ev err d)"
    by simp
  also have "\<dots> = (u_abort ev err d)\<lparr>it := it (fold (\<lambda>ev. u_abort ev err) evs (u_abort ev err d))\<rparr>"
    by (rule Cons.IH)
  also have "\<dots> = d\<lparr>it := it (fold (\<lambda>ev. u_abort ev err) (ev # evs) d)\<rparr>"
    by (simp add: u_abort_def)
  finally show ?case .
qed



subsection \<open>An Unreliable without listeners leaves the daemon alone\<close>

lemma quiet_u_notify:
  "listeners (it d) = [] \<Longrightarrow> u_notify ev ch d = d\<lparr>it := it (u_notify ev ch d)\<rparr>"
  by (simp add: u_notify_def Let_def)

lemma quiet_u_notify_listeners:
  "listeners (it d) = [] \<Longrightarrow> listeners (it (u_notify ev ch d)) = []"
  by (simp add: u_notify_def Let_def)

lemma quiet_U_setState:
  assumes "listeners (it d) = []"
  shows "U_setState s ex d = d\<lparr>it := it (U_setState s ex d)\<rparr>"
proof -
  have "U_setState s ex d =
        (u_notify s \<lparr>oldState = u_state (it d), extra = ex\<rparr> d)
          \<lparr>it := it (U_setState s ex d)\<rparr>"
    by (simp add: U_setState_def Let_def)
  also have "\<dots> = (d\<lparr>it := it (u_notify s \<lparr>oldState = u_state (it d), extra = ex\<rparr> d)\<rparr>)
          \<lparr>it := it (U_setState s ex d)\<rparr>"
    using quiet_u_notify [OF assms, of s "\<lparr>oldState = u_state (it d), extra = ex\<rparr>"] by simp
  finally show ?thesis by simp
qed

lemma quiet_U__start_sync:
  assumes "listeners (it d) = []"
  shows "snd (U__start_sync d) = d\<lparr>it := it (snd (U__start_sync d))\<rparr>"
  using quiet_U_setState [OF assms, of "starting (states (meta (it d)))" NoExtra]
  by (simp add: U__start_sync_def)

lemma D__start_sync_alive:
  assumes "daemon_inv d" and "\<not> dead d"
  shows "timers (D__start_sync n d) = []"
    and "d_trace (D__start_sync n d) = d_trace d @ [Notify E_STARTING (Starting n) (d_state d)]"
    and "d_state (D__start_sync n d) = STARTING"
proof -
  let ?d1 = "case retryTimer d of None \<Rightarrow> d | Some t \<Rightarrow> (clearTimeout t d)\<lparr>retryTimer := None\<rparr>"
  let ?d2 = "D_cleanUp ?d1"
  let ?d4 = "(d_notify E_STARTING (Starting n) ?d2)\<lparr>d_state := STARTING\<rparr>"
  let ?d5 = "snd (U__start_sync ?d4)"
  have inv1: "daemon_inv ?d1" by (rule inv_clear_timer [OF assms(1)])
  have t1: "timers ?d1 = []" by (rule timers_clear_timer [OF assms(1)])
  have s1: "d_state ?d1 = d_state d" "d_trace ?d1 = d_trace d"
    by (simp_all add: clearTimeout_def split: option.splits)
  have l2: "listeners (it ?d2) = []"
    using inv1 by (auto simp: D_cleanUp_fields daemon_inv_def listener_inv_def filter_empty_conv)
  have t2: "timers ?d2 = []" by (rule timers_D_cleanUp_empty [OF t1])
  have l4: "listeners (it ?d4) = []" using l2 by (simp add: d_notify_def)
  have 5: "?d5 = ?d4\<lparr>it := it ?d5\<rparr>" by (rule quiet_U__start_sync [OF l4])
  have t5: "timers ?d5 = []"
    by (subst 5) (simp add: d_notify_def t2)
  have tr5: "d_trace ?d5 = d_trace d @ [Notify E_STARTING (Starting n) (d_state d)]"
    by (subst 5) (simp add: d_notify_def D_cleanUp_fields s1)
  have st5: "d_state ?d5 = STARTING"
    by (subst 5) simp
  have unfold: "D__start_sync n d =
      ?d5\<lparr>frames := frames ?d5 @
            [\<lparr>attempt = n, f_maxAttempt = maxAttempt ?d1,
              stage = (case fst (U__start_sync ?d4) of None \<Rightarrow> AwaitHook | Some e \<Rightarrow> StartRejected e)\<rparr>]\<rparr>"
    using assms(2) by (simp add: D__start_sync_def Let_def split: prod.splits)
  show "timers (D__start_sync n d) = []"
    by (subst unfold) (simp add: t5)
  show "d_trace (D__start_sync n d) = d_trace d @ [Notify E_STARTING (Starting n) (d_state d)]"
    by (subst unfold) (simp add: tr5)
  show "d_state (D__start_sync n d) = STARTING"
    by (subst unfold) (simp add: st5)
qed

subsection \<open>Timeouts after stop and after a timeout fired\<close>

lemma stable_dead_no_timer: "stable (\<lambda>x. timers x = [] \<and> dead x)"
  by (simp add: stable_def onStopped_def Let_def dead_def D_cleanUp_fields timers_D_cleanUp_empty)

lemma timers_D_stop:
  assumes "daemon_inv d"
  shows "timers (D_stop d) = []"
proof -
  let ?d2 = "D_cleanUp (d\<lparr>d_state := DEAD\<rparr>)"
  have "timer_inv (d\<lparr>d_state := DEAD\<rparr>)"
    using assms by (simp add: daemon_inv_def timer_inv_def)
  then have "timers ?d2 = []" by (rule timers_D_cleanUp)
  then have "timers (case retryTimer ?d2 of None \<Rightarrow> ?d2
                       | Some t \<Rightarrow> (clearTimeout t ?d2)\<lparr>retryTimer := None\<rparr>) = [] \<and>
             dead (case retryTimer ?d2 of None \<Rightarrow> ?d2
                       | Some t \<Rightarrow> (clearTimeout t ?d2)\<lparr>retryTimer := None\<rparr>)"
    by (simp add: D_cleanUp_fields dead_def)
  then have "timers (D_stop d) = [] \<and> dead (D_stop d)"
    unfolding D_stop_def Let_def
    by (rule stable_U_stop [OF stable_dead_no_timer])
  then show ?thesis by simp
qed

lemma timers_timer_callback:
  assumes "daemon_inv d" and "map_of (timers d) t = Some n" and "\<not> dead d"
  shows "timers (timer_callback t n d) = []"
proof -
  let ?d0 = "(d\<lparr>timers := filter (\<lambda>(i, k). i \<noteq> t) (timers d)\<rparr>)\<lparr>retryTimer := None\<rparr>"
  have "(t, n) \<in> set (timers d)"
    by (rule map_of_SomeD [OF assms(2)])
  then have "filter (\<lambda>(i, k). i \<noteq> t) (timers d) = []"
    using assms(1) by (cases "timers d") (auto simp: daemon_inv_def timer_inv_def)
  then have "daemon_inv ?d0"
    using assms(1) by (simp add: daemon_inv_def timer_inv_def listener_inv_def)
  moreover have "\<not> dead ?d0"
    using assms(3) by (simp add: dead_def)
  ultimately show ?thesis
    unfolding timer_callback_def by (rule D__start_sync_alive(1))
qed

subsection \<open>The callback of the stopped transition\<close>

lemma timers_D_scheduleRetry_mem: "(next_id d, n) \<in> set (timers (D_scheduleRetry n d))"
  by (simp add: D_scheduleRetry_def Let_def clearTimeout_def d_notify_def split: option.splits)

lemma onStopped_rearmed:
  assumes "\<not> dead d" and "retryDelay d = c"
  shows "rearmed_at_one c (onStopped d)"
proof -
  have "\<not> dead (D_cleanUp d)"
    using assms(1) by (simp add: dead_def D_cleanUp_fields)
  then have "onStopped d = D_scheduleRetry 1 (D_cleanUp d)"
    by (simp add: onStopped_def Let_def)
  then show ?thesis
    using assms(2) timers_D_scheduleRetry_mem [of "D_cleanUp d" 1]
    by (simp add: rearmed_at_one_def D_scheduleRetry_fields D_cleanUp_fields)
qed

lemma rearmed_alive: "rearmed_at_one c d \<Longrightarrow> \<not> dead d \<and> retryDelay d = c"
  by (simp add: rearmed_at_one_def dead_def)

lemma fold_onStopped_rearmed:
  "ls \<noteq> [] \<Longrightarrow> \<not> dead d \<Longrightarrow> retryDelay d = c \<Longrightarrow> rearmed_at_one c (fold (\<lambda>l. onStopped) ls d)"
proof (induction ls arbitrary: d)
  case Nil
  then show ?case by simp
next
  case (Cons l ls)
  have 1: "rearmed_at_one c (onStopped d)"
    by (rule onStopped_rearmed [OF Cons.prems(2,3)])
  show ?case
  proof (cases "ls = []")
    case True
    then show ?thesis using 1 by simp
  next
    case False
    then show ?thesis
      using Cons.IH [of "onStopped d"] rearmed_alive [OF 1] by simp
  qed
qed

lemma rearmed_it: "rearmed_at_one c (d\<lparr>it := u\<rparr>) = rearmed_at_one c d"
  by (simp add: rearmed_at_one_def)

lemma u_notify_rearmed:
  assumes "(ev, i) \<in> set (listeners (it d))" and "\<not> dead d"
  shows "rearmed_at_one (retryDelay d) (u_notify ev ch d)"
proof -
  have "filter (\<lambda>(e, i). e = ev) (listeners (it d)) \<noteq> []"
    using assms(1) by (auto simp: filter_empty_conv)
  then show ?thesis
    using assms(2)
    by (simp add: u_notify_def Let_def fold_onStopped_rearmed dead_def)
qed

lemma U_onDeath_rearmed:
  assumes "(stopped (states (meta (it d))), i) \<in> set (listeners (it d))" and "\<not> dead d"
  shows "rearmed_at_one (retryDelay d) (U_onDeath reason d)"
proof -
  let ?d1 = "U_setState (stopped (states (meta (it d)))) (Reason reason) d"
  let ?d2 = "?d1\<lparr>it := (it ?d1)\<lparr>uObj := None\<rparr>\<rparr>"
  let ?d3 = "fold U_dispose (u_disposables (it ?d2)) ?d2"
  let ?d4 = "?d3\<lparr>it := (it ?d3)\<lparr>u_disposables := []\<rparr>\<rparr>"
  let ?d5 = "fold (\<lambda>ev. u_abort ev (new_deathError (meta (it d)) (uObj (it d)) reason))
               (abortOnDeath (stateConf (meta (it d)))) ?d4"
  have 1: "rearmed_at_one (retryDelay d) ?d1"
    unfolding U_setState_def Let_def rearmed_it
    by (rule u_notify_rearmed [OF assms])
  have 2: "rearmed_at_one (retryDelay d) ?d2"
    unfolding rearmed_it by (rule 1)
  have 3: "rearmed_at_one (retryDelay d) ?d3"
    by (subst fold_U_dispose) (simp only: rearmed_it 1)
  have 4: "rearmed_at_one (retryDelay d) ?d4"
    unfolding rearmed_it by (rule 3)
  have 5: "rearmed_at_one (retryDelay d) ?d5"
    by (subst fold_u_abort) (simp only: rearmed_it 3)
  show ?thesis
    using 5 by (simp add: U_onDeath_def Let_def)
qed

subsection \<open>Reachability of the example states\<close>

lemma reachable_run: "reachable d \<Longrightarrow> run es d = Some d1 \<Longrightarrow> reachable d1"
proof (induction es arbitrary: d)
  case Nil
  then show ?case by simp
next
  case (Cons e es)
  then show ?case
    by (auto split: option.splits intro: reachable_step)
qed

lemma reachable_after: "reachable d \<Longrightarrow> reachable (after es d)"
  by (auto simp: after_def split: option.splits intro: reachable_run)

lemma reachable_retry_pending: "reachable retry_pending"
  unfolding retry_pending_def FakeProcess_def
  by (rule reachable_after [OF reachable_new])

lemma reachable_running_on_retry: "reachable running_on_retry"
  unfolding running_on_retry_def
  by (rule reachable_after [OF reachable_retry_pending])

lemma stop_passes_through_stopping:
  "u_state (it running_on_retry) = ''running'' \<and>
   fst (U_stop running_on_retry) = None \<and>
   u_state (it (snd (U_stop running_on_retry))) = ''stopped'' \<and>
   drop (length (u_trace (it running_on_retry))) (u_trace (it (snd (U_stop running_on_retry)))) =
     [UNotify ''stopping'' \<lparr>oldState = ''running'', extra = NoExtra\<rparr> ''running'',
      UNotify ''stopped'' \<lparr>oldState = ''stopping'', extra = Reason []\<rparr> ''stopping'',
      UAbort ''starting'' (UnreliableDeathError (Some 7) []),
      UAbort ''running'' (UnreliableDeathError (Some 7) [])]"
  by code_simp

section \<open>The claims\<close>

text \<open>
  C1.  For every \<open>maxAttempt = N \<ge> 1\<close>: when the creation routine fails on
  every attempt, a daemon started with \<open>start()\<close> and left alone comes to rest
  (with enough fuel the run returns), and by then it has broadcast exactly \<open>N\<close>
  \<open>start-failed\<close> events.  Each of the first \<open>N - 1\<close> carries
  \<open>retryIn = retryDelay\<close> and is followed by \<open>retry-scheduled\<close> and by the
  \<open>starting\<close> broadcast of the next attempt number, during which the status
  read is \<open>retry-scheduled\<close>; the last carries \<open>retryIn = -1\<close>.  The status
  is then \<open>dead\<close>, nothing is pending, and whatever happens afterwards, short
  of an external \<open>start()\<close>, the status stays \<open>dead\<close>.  The two
  hypotheses on the configuration say that the creation routine is reached on
  every attempt.
\<close>

theorem bounded_retries:
  fixes N :: nat
  assumes "1 \<le> N"
    and "init (states m) \<in> startable (stateConf m)"
    and "startFailed (states m) \<in> startable (stateConf m)"
    and "4 * N \<le> fuel"
  shows "\<exists>dF. run_alone fuel (\<lambda>n. HookFails (errs n))
                (D_start (Daemon_new (Unreliable_new m sh ms) (int N) delay)) = Some dF \<and>
              d_trace dF = Notify E_STARTING (Starting 1) INIT # failing_rounds errs delay 1 (N - 1) \<and>
              length (start_failures (d_trace dF)) = N \<and>
              map retryIn (start_failures (d_trace dF)) = replicate (N - 1) delay @ [- 1] \<and>
              d_state dF = DEAD \<and> timers dF = [] \<and> frames dF = [] \<and>
              (\<forall>es d'. CallStart \<notin> set es \<longrightarrow> run es dF = Some d' \<longrightarrow> d_state d' = DEAD)"
proof -
  let ?hook = "\<lambda>n. HookFails (errs n)"
  let ?d1 = "D_start (Daemon_new (Unreliable_new m sh ms) (int N) delay)"
  let ?utr = "[UNotify (starting (states m)) \<lparr>oldState = init (states m), extra = NoExtra\<rparr> (init (states m))]"
  have N: "int N = 1 + int (N - 1)"
    using assms(1) by simp
  have start: "?d1 = awaiting m sh ms (1 + int (N - 1)) delay 1 0 [Notify E_STARTING (Starting 1) INIT] ?utr"
    unfolding D_start_def objectless_new awaiting_def N [symmetric]
    using objectless_D__start_sync [OF assms(2), of INIT 1 sh ms "int N" delay "[]" 0 "[]" "[]"]
    by (simp add: objectless_def)
  obtain utr' nid' where run4:
    "run_alone (4 * Suc (N - 1)) ?hook ?d1 =
     Some (objectless m sh ms (1 + int (N - 1)) delay (startFailed (states m)) utr' DEAD [] None nid' []
             ([Notify E_STARTING (Starting 1) INIT] @ failing_rounds errs delay 1 (N - 1)))"
    unfolding start
    using failing_rounds_run [OF assms(3), of "N - 1" errs sh ms 1 delay 0 "[Notify E_STARTING (Starting 1) INIT]" ?utr]
    by blast
  let ?dF = "objectless m sh ms (1 + int (N - 1)) delay (startFailed (states m)) utr' DEAD [] None nid' []
             ([Notify E_STARTING (Starting 1) INIT] @ failing_rounds errs delay 1 (N - 1))"
  have fuel: "fuel = 4 * Suc (N - 1) + (fuel - 4 * N)"
    using assms(1,4) by simp
  have run: "run_alone fuel ?hook ?d1 = Some ?dF"
    by (subst fuel) (rule run_alone_more_fuel [OF run4])
  have tr: "d_trace ?dF = Notify E_STARTING (Starting 1) INIT # failing_rounds errs delay 1 (N - 1)"
    by (simp add: objectless_def)
  have gu: "gave_up ?dF"
    by (simp add: gave_up_def objectless_def)
  have perm: "\<forall>es d'. CallStart \<notin> set es \<longrightarrow> run es ?dF = Some d' \<longrightarrow> d_state d' = DEAD"
    using gave_up_run [OF gu] by (auto simp: gave_up_def)
  have len: "length (start_failures (d_trace ?dF)) = N"
    unfolding tr using assms(1) by (simp add: length_start_failures_failing_rounds)
  have rin: "map retryIn (start_failures (d_trace ?dF)) = replicate (N - 1) delay @ [- 1]"
    unfolding tr by (simp add: retryIn_start_failures_failing_rounds)
  have st: "d_state ?dF = DEAD \<and> timers ?dF = [] \<and> frames ?dF = []"
    by (simp add: objectless_def)
  show ?thesis
    using run tr len rin st perm by blast
qed

theorem bounded_retries_witness:
  "\<exists>dF. run_alone 12 (\<lambda>n. HookFails (HookError ''boom'')) (D_start (Daemon_new FakeProcess 3 2000)) = Some dF \<and>
     map retryIn (start_failures (d_trace dF)) = [2000, 2000, - 1] \<and>
     d_state dF = DEAD"
  using bounded_retries [of 3 FakeProcess_meta 12 "\<lambda>n. HookError ''boom''" "StopEmits ''exit'' []" "{}" 2000]
  by (auto simp: FakeProcess_def FakeProcess_meta_def numeral_eq_Suc)

text \<open>
  C2.  Once the status is \<open>dead\<close> it does not leave \<open>dead\<close> and neither
  \<open>retry-scheduled\<close> nor \<open>starting\<close> is broadcast again without an external
  \<open>start()\<close>, also when \<open>stop()\<close> is called while \<open>it.start()\<close> is in
  flight.  The code does otherwise on the test's daemon: \<open>start()\<close>, then
  \<open>stop()\<close> while the creation hook is pending (status \<open>dead\<close>), then the hook
  returns object \<open>7\<close> and the two continuations run: the daemon broadcasts
  \<open>running\<close> and its status is \<open>running\<close>.  When the object then emits
  \<open>exit\<close>, the daemon broadcasts \<open>retry-scheduled\<close>, and when the timeout
  fires it broadcasts \<open>starting\<close>.
\<close>

theorem stop_while_starting_is_undone:
  "map_option d_state (run [CallStart, CallStop] (Daemon_new FakeProcess 3 2000)) = Some DEAD \<and>
   map_option d_state
     (run [CallStart, CallStop, HookResolves 0 7, Resume 0, Resume 0]
        (Daemon_new FakeProcess 3 2000)) = Some RUNNING \<and>
   map_option (\<lambda>d. (d_state d, d_trace d))
     (run [CallStart, CallStop, HookResolves 0 7, Resume 0, Resume 0, ObjEmits 7 ''exit'' [],
           TimerFires 1]
        (Daemon_new FakeProcess 3 2000)) =
     Some (STARTING,
           [Notify E_STARTING (Starting 1) INIT,
            Notify E_RUNNING Running DEAD,
            Notify E_RETRY_SCHEDULED (RetryScheduled 1 2000) RUNNING,
            Notify E_STARTING (Starting 1) RETRY_SCHEDULED])"
  by code_simp




text \<open>
  C4 as amended.  The \<open>catch\<close> block of \<open>_start\<close> is one synchronous
  step.  For a failed attempt \<open>n < maxAttempt\<close> of a daemon that is not dead,
  this step extends the trace by what the best-effort \<open>it.stop()\<close> may cause,
  then by the \<open>start-failed\<close> broadcast with \<open>retryIn = retryDelay\<close> and,
  with nothing in between, by the \<open>retry-scheduled\<close> broadcast for attempt
  \<open>n + 1\<close>; only then is the status set to \<open>retry-scheduled\<close>, and the
  timeout for attempt \<open>n + 1\<close> is armed.  So the status is
  \<open>retry-scheduled\<close> when the step is over, which is what an observer resumed
  after the step finds (one awaiting \<open>waitFor\<close> of \<open>start-failed\<close>, as in the
  test), while a listener that runs as part of either broadcast reads the status
  from before the assignment: the one left by the best-effort \<open>it.stop()\<close>,
  which is the status on entry when \<open>it\<close> is not stoppable.
\<close>

theorem retry_scheduled_in_same_step:
  assumes "n < maxA" and "\<not> dead d"
  shows "let d1 = (if U_stoppable (it d) then snd (U_stop d) else d)
         in d_trace (D__start_catch n maxA err d) =
              d_trace d1 @
              [Notify E_START_FAILED
                 (StartFailed \<lparr>cause = err, nthAttempt = n, retryIn = retryDelay d\<rparr>) (d_state d1),
               Notify E_RETRY_SCHEDULED (RetryScheduled (n + 1) (retryDelay d)) (d_state d1)] \<and>
            (\<exists>pre. d_trace d1 = d_trace d @ pre) \<and>
            d_state (D__start_catch n maxA err d) = RETRY_SCHEDULED \<and>
            retryTimer (D__start_catch n maxA err d) = Some (next_id d1) \<and>
            (next_id d1, n + 1) \<in> set (timers (D__start_catch n maxA err d))"
proof -
  let ?d1 = "if U_stoppable (it d) then snd (U_stop d) else d"
  let ?sf = "StartFailed \<lparr>cause = err, nthAttempt = n, retryIn = retryDelay ?d1\<rparr>"
  let ?d2 = "d_notify E_START_FAILED ?sf ?d1"
  have alive: "\<not> dead ?d1"
    using stable_U_stop [OF stable_not_dead assms(2)] assms(2) by simp
  have delay: "retryDelay ?d1 = retryDelay d"
    using stable_U_stop [OF stable_retryDelay [of "retryDelay d"], of d] by simp
  have pre: "\<exists>pre. d_trace ?d1 = d_trace d @ pre"
    using stable_U_stop [OF stable_trace_grows [of "d_trace d"], of d]
    by (cases "U_stoppable (it d)") simp_all
  have unfold: "D__start_catch n maxA err d = D_scheduleRetry (n + 1) ?d2"
    using assms(1) alive by (simp add: D__start_catch_def Let_def)
  have st: "d_state (D__start_catch n maxA err d) = RETRY_SCHEDULED"
    by (simp add: unfold D_scheduleRetry_fields)
  have tr: "d_trace (D__start_catch n maxA err d) =
            d_trace ?d1 @
            [Notify E_START_FAILED
               (StartFailed \<lparr>cause = err, nthAttempt = n, retryIn = retryDelay d\<rparr>) (d_state ?d1),
             Notify E_RETRY_SCHEDULED (RetryScheduled (n + 1) (retryDelay d)) (d_state ?d1)]"
    unfolding unfold D_scheduleRetry_fields
    using delay by (simp add: d_notify_def)
  have tm: "retryTimer (D__start_catch n maxA err d) = Some (next_id ?d1) \<and>
            (next_id ?d1, n + 1) \<in> set (timers (D__start_catch n maxA err d))"
    unfolding unfold
    using timers_D_scheduleRetry_mem [of ?d2 "n + 1"]
    by (simp add: D_scheduleRetry_fields d_notify_def)
  show ?thesis
    unfolding Let_def using st tr tm pre by blast
qed

theorem retry_scheduled_in_same_step_witness:
  "(1::int) < 3 \<and> \<not> dead (D_start (Daemon_new FakeProcess 3 2000)) \<and>
   d_state (D_start (Daemon_new FakeProcess 3 2000)) = STARTING \<and>
   d_trace (D__start_catch 1 3 (HookError ''boom'') (D_start (Daemon_new FakeProcess 3 2000))) =
     [Notify E_STARTING (Starting 1) INIT,
      Notify E_START_FAILED
        (StartFailed \<lparr>cause = HookError ''boom'', nthAttempt = 1, retryIn = 2000\<rparr>) STARTING,
      Notify E_RETRY_SCHEDULED (RetryScheduled 2 2000) STARTING] \<and>
   d_state (D__start_catch 1 3 (HookError ''boom'') (D_start (Daemon_new FakeProcess 3 2000))) =
     RETRY_SCHEDULED"
proof -
  have 1: "\<not> dead (D_start (Daemon_new FakeProcess 3 2000))" by code_simp
  have 2: "(1::int) < 3" by simp
  have 3: "\<not> U_stoppable (it (D_start (Daemon_new FakeProcess 3 2000)))" by code_simp
  have 4: "d_state (D_start (Daemon_new FakeProcess 3 2000)) = STARTING" by code_simp
  have 5: "d_trace (D_start (Daemon_new FakeProcess 3 2000)) = [Notify E_STARTING (Starting 1) INIT]"
    by code_simp
  have 6: "retryDelay (D_start (Daemon_new FakeProcess 3 2000)) = 2000" by code_simp
  show ?thesis
    using retry_scheduled_in_same_step [OF 2 1, of "HookError ''boom''"] 1 3
    by (simp add: Let_def 4 5 6)
qed

text \<open>
  C4 as stated fails on the test's daemon: when the first attempt has failed,
  the \<open>start-failed\<close> broadcast (and the \<open>retry-scheduled\<close> broadcast after
  it) reaches its listeners while the status is still \<open>starting\<close>; the status
  is \<open>retry-scheduled\<close> only once the step is over.
\<close>

theorem start_failed_listener_counterexample:
  "map_option (\<lambda>d. (d_state d, d_trace d))
     (run [CallStart, HookRejects 0 (HookError ''boom''), Resume 0, Resume 0]
        (Daemon_new FakeProcess 3 2000)) =
   Some (RETRY_SCHEDULED,
         [Notify E_STARTING (Starting 1) INIT,
          Notify E_START_FAILED
            (StartFailed \<lparr>cause = HookError ''boom'', nthAttempt = 1, retryIn = 2000\<rparr>) STARTING,
          Notify E_RETRY_SCHEDULED (RetryScheduled 2 2000) STARTING])"
  by code_simp

text \<open>
  C5 as amended.  The daemon learns of the death of the resource through the
  once-subscription to the \<open>stopped\<close> transition of \<open>it\<close> that \<open>_start\<close>
  registers in its continuation after \<open>it.start()\<close> has succeeded, at whatever
  attempt number, and that the next \<open>_cleanUp\<close> removes.  While such a
  subscription is registered and the daemon is not dead, the death of the
  resource (the transition to \<open>stopped\<close> made by \<open>_onDeath\<close>) makes the
  daemon clean up (no disposable is left) and schedule a retry: it broadcasts
  \<open>retry-scheduled\<close> for attempt 1, its status is \<open>retry-scheduled\<close>, and the
  armed timeout holds attempt number 1; no earlier count of failed attempts
  enters.  In particular this is so, in every state \<open>d0\<close>, when the resource
  dies right after that continuation of \<open>_start\<close> has run.
\<close>

theorem death_after_running_retries_at_one:
  assumes "(stopped (states (meta (it d))), i) \<in> set (listeners (it d))" and "\<not> dead d"
  shows "(d_state (U_onDeath reason d) = RETRY_SCHEDULED \<and>
          d_disposables (U_onDeath reason d) = [] \<and>
          (\<exists>t. retryTimer (U_onDeath reason d) = Some t \<and>
               (t, 1) \<in> set (timers (U_onDeath reason d))) \<and>
          (\<exists>pre st. d_trace (U_onDeath reason d) =
             pre @ [Notify E_RETRY_SCHEDULED (RetryScheduled 1 (retryDelay d)) st])) \<and>
         (d_state (U_onDeath reason (D__start_success d0)) = RETRY_SCHEDULED \<and>
          d_disposables (U_onDeath reason (D__start_success d0)) = [] \<and>
          (\<exists>t. retryTimer (U_onDeath reason (D__start_success d0)) = Some t \<and>
               (t, 1) \<in> set (timers (U_onDeath reason (D__start_success d0)))) \<and>
          (\<exists>pre st. d_trace (U_onDeath reason (D__start_success d0)) =
             pre @ [Notify E_RETRY_SCHEDULED (RetryScheduled 1 (retryDelay d0)) st]))"
proof -
  have general: "rearmed_at_one (retryDelay d) (U_onDeath reason d)"
    by (rule U_onDeath_rearmed [OF assms])
  let ?d1 = "D__start_success d0"
  have reg: "(stopped (states (meta (it ?d1))), next_id d0) \<in> set (listeners (it ?d1))"
    by (simp add: D__start_success_def Let_def d_notify_def)
  have alive: "\<not> dead ?d1"
    by (simp add: D__start_success_def Let_def d_notify_def dead_def)
  have delay: "retryDelay ?d1 = retryDelay d0"
    by (simp add: D__start_success_def Let_def d_notify_def)
  have "rearmed_at_one (retryDelay ?d1) (U_onDeath reason ?d1)"
    by (rule U_onDeath_rearmed [OF reg alive])
  then have right_after: "rearmed_at_one (retryDelay d0) (U_onDeath reason ?d1)"
    by (simp only: delay)
  show ?thesis
    using general right_after unfolding rearmed_at_one_def by blast
qed

theorem death_after_running_retries_at_one_witness:
  "(stopped (states (meta (it running_on_retry))), 1) \<in> set (listeners (it running_on_retry)) \<and>
   \<not> dead running_on_retry \<and>
   frames retry_pending = [] \<and> timers retry_pending = [(0, 2)] \<and>
   d_state (U_onDeath [] running_on_retry) = RETRY_SCHEDULED \<and>
   timers (U_onDeath [] running_on_retry) = [(2, 1)]"
proof -
  have 1: "(stopped (states (meta (it running_on_retry))), 1) \<in> set (listeners (it running_on_retry))"
    by code_simp
  have 2: "\<not> dead running_on_retry" by code_simp
  have 3: "frames retry_pending = [] \<and> timers retry_pending = [(0, 2)]" by code_simp
  have 4: "timers (U_onDeath [] running_on_retry) = [(2, 1)]" by code_simp
  show ?thesis
    using death_after_running_retries_at_one [OF 1 2, of "[]"] 1 2 3 4 by simp
qed

text \<open>
  C5 as stated fails on the test's daemon in two runs.  In the first the
  resource starts (state \<open>running\<close>) and dies (state \<open>stopped\<close>) while the
  continuation of \<open>_start\<close> has not yet run and the status is \<open>starting\<close>:
  no retry is scheduled, and the continuation then sets the status to
  \<open>running\<close> with nothing pending.  In the second the daemon is running,
  \<open>start()\<close> is called again, which removes the subscription and fails
  attempt 1 on the assertion of \<open>it.start()\<close>; the resource then dies while
  the status is \<open>retry-scheduled\<close>: the only timeout is the one for attempt 2,
  and no \<open>retry-scheduled\<close> broadcast for attempt 1 was made.
\<close>

theorem death_without_retry_counterexample:
  "map_option (\<lambda>d. (d_state d, u_state (it d)))
     (run [CallStart, HookResolves 0 7, Resume 0] (Daemon_new FakeProcess 3 2000)) =
   Some (STARTING, ''running'') \<and>
   map_option (\<lambda>d. (d_state d, u_state (it d), timers d))
     (run [CallStart, HookResolves 0 7, Resume 0, ObjEmits 7 ''exit'' []]
        (Daemon_new FakeProcess 3 2000)) =
   Some (STARTING, ''stopped'', []) \<and>
   map_option (\<lambda>d. (d_state d, u_state (it d), timers d, frames d, d_trace d))
     (run [CallStart, HookResolves 0 7, Resume 0, ObjEmits 7 ''exit'' [], Resume 0]
        (Daemon_new FakeProcess 3 2000)) =
   Some (RUNNING, ''stopped'', [], [],
         [Notify E_STARTING (Starting 1) INIT, Notify E_RUNNING Running STARTING]) \<and>
   map_option (\<lambda>d. (d_state d, u_state (it d), timers d))
     (run [CallStart, HookResolves 0 7, Resume 0, Resume 0, CallStart, Resume 0, Resume 0]
        (Daemon_new FakeProcess 3 2000)) =
   Some (RETRY_SCHEDULED, ''start-failed'', [(1, 2)]) \<and>
   map_option (\<lambda>d. (d_state d, u_state (it d), timers d, d_trace d))
     (run [CallStart, HookResolves 0 7, Resume 0, Resume 0, CallStart, Resume 0, Resume 0,
           ObjEmits 7 ''exit'' []]
        (Daemon_new FakeProcess 3 2000)) =
   Some (RETRY_SCHEDULED, ''stopped'', [(1, 2)],
         [Notify E_STARTING (Starting 1) INIT,
          Notify E_RUNNING Running STARTING,
          Notify E_STARTING (Starting 1) INIT,
          Notify E_START_FAILED
            (StartFailed \<lparr>cause = AssertionError ''Not startable'', nthAttempt = 1,
                           retryIn = 2000\<rparr>) STARTING,
          Notify E_RETRY_SCHEDULED (RetryScheduled 2 2000) STARTING])"
  by code_simp

text \<open>
  C6.  In every state a daemon can reach at most one retry timeout is live, and
  it is the one \<open>_retryTimer\<close> refers to.  \<open>_start\<close> of a daemon that is not
  dead, and so \<open>start()\<close> also while a retry is pending, leaves no live timeout
  behind when it suspends; \<open>_scheduleRetry\<close> leaves exactly the timeout it
  arms; \<open>_cleanUp\<close> and \<open>stop()\<close> leave none.
\<close>

theorem at_most_one_retry_timer:
  assumes "reachable d"
  shows "length (timers d) \<le> 1 \<and>
         (\<forall>p \<in> set (timers d). retryTimer d = Some (fst p)) \<and>
         (\<not> dead d \<longrightarrow> timers (D__start_sync n d) = []) \<and>
         timers (D_start d) = [] \<and>
         timers (D_scheduleRetry n d) = [(next_id d, n)] \<and>
         timers (D_cleanUp d) = [] \<and>
         timers (D_stop d) = []"
proof -
  have inv: "daemon_inv d" by (rule reachable_inv [OF assms])
  then have ti: "timer_inv d" by (simp add: daemon_inv_def)
  have inv0: "daemon_inv (d\<lparr>d_state := INIT\<rparr>)"
    by (rule inv_eqI [OF inv]) simp_all
  have "timers (D_start d) = []"
    unfolding D_start_def by (rule D__start_sync_alive(1) [OF inv0]) (simp add: dead_def)
  then show ?thesis
    using ti D__start_sync_alive(1) [OF inv, of n] timers_D_scheduleRetry [OF ti, of n]
      timers_D_cleanUp [OF ti] timers_D_stop [OF inv]
    by (simp add: timer_inv_def)
qed

theorem at_most_one_retry_timer_witness:
  "reachable retry_pending \<and> timers retry_pending = [(0, 2)] \<and> retryTimer retry_pending = Some 0 \<and>
   \<not> dead retry_pending \<and>
   timers (D_start retry_pending) = [] \<and>
   timers (D_scheduleRetry 5 retry_pending) = [(1, 5)] \<and>
   timers (D_stop retry_pending) = []"
proof -
  have 1: "timers retry_pending = [(0, 2)] \<and> retryTimer retry_pending = Some 0 \<and> \<not> dead retry_pending"
    by code_simp
  have 2: "next_id retry_pending = 1" by code_simp
  show ?thesis
    using at_most_one_retry_timer [OF reachable_retry_pending, of 5] reachable_retry_pending 1 2
    by simp
qed



text \<open>
  C8.  When the creation hook called by \<open>start()\<close> fails with \<open>err\<close> (the
  instance was startable and had no underlying object, so the hook was reached),
  \<open>start()\<close> has, after the \<open>starting\<close> broadcast, first aborted the waiters
  of every event of \<open>abortOnStartFailure\<close> with \<open>err\<close>, in list order, then
  broadcast the transition to \<open>start-failed\<close> with a payload holding \<open>err\<close>
  and the previous state, and it ends in state \<open>start-failed\<close> re-raising the
  same \<open>err\<close> to its caller.
\<close>

theorem start_failure_handling:
  assumes "U_startable (it d)" and "uObj (it d) = None"
  shows "fst (U_start (HookFails err) d) = Some err \<and>
         u_trace (it (snd (U_start (HookFails err) d))) =
           u_trace (it d) @
           UNotify (starting (states (meta (it d)))) \<lparr>oldState = u_state (it d), extra = NoExtra\<rparr>
             (u_state (it d)) #
           map (\<lambda>ev. UAbort ev err) (abortOnStartFailure (stateConf (meta (it d)))) @
           [UNotify (startFailed (states (meta (it d))))
              \<lparr>oldState = starting (states (meta (it d))), extra = Err err\<rparr>
              (starting (states (meta (it d))))] \<and>
         u_state (it (snd (U_start (HookFails err) d))) = startFailed (states (meta (it d)))"
  using assms
  by (simp add: U_start_def U__start_sync_def U_start_catch_def Let_def U_setState_fields
        it_fold_u_abort)

theorem start_failure_handling_witness:
  "U_startable (it (Daemon_new FakeProcess 3 2000)) \<and>
   uObj (it (Daemon_new FakeProcess 3 2000)) = None \<and>
   fst (U_start (HookFails (HookError ''boom'')) (Daemon_new FakeProcess 3 2000)) =
     Some (HookError ''boom'') \<and>
   u_trace (it (snd (U_start (HookFails (HookError ''boom'')) (Daemon_new FakeProcess 3 2000)))) =
     [UNotify ''starting'' \<lparr>oldState = ''init'', extra = NoExtra\<rparr> ''init'',
      UAbort ''running'' (HookError ''boom''),
      UAbort ''stopped'' (HookError ''boom''),
      UNotify ''start-failed'' \<lparr>oldState = ''starting'', extra = Err (HookError ''boom'')\<rparr>
        ''starting''] \<and>
   u_state (it (snd (U_start (HookFails (HookError ''boom'')) (Daemon_new FakeProcess 3 2000)))) =
     ''start-failed''"
proof -
  have 1: "U_startable (it (Daemon_new FakeProcess 3 2000))" by code_simp
  have 2: "uObj (it (Daemon_new FakeProcess 3 2000)) = None" by code_simp
  have 3: "meta (it (Daemon_new FakeProcess 3 2000)) = FakeProcess_meta" by code_simp
  have 4: "u_state (it (Daemon_new FakeProcess 3 2000)) = ''init''" by code_simp
  have 5: "u_trace (it (Daemon_new FakeProcess 3 2000)) = []" by code_simp
  show ?thesis
    using start_failure_handling [OF 1 2, of "HookError ''boom''"] 1 2
    by (simp add: 3 4 5 FakeProcess_meta_def)
qed

text \<open>
  C9.  When \<open>start()\<close> is called although the instance is not startable or
  already has an underlying object, the assertion error is raised to the caller
  without the hook being called, whatever the hook would have done; yet the
  \<open>catch\<close> block of \<open>start()\<close> has run: the waiters of the events of
  \<open>abortOnStartFailure\<close> are aborted with the assertion error, the transition to
  \<open>start-failed\<close> is broadcast, and the instance ends in state \<open>start-failed\<close>
  instead of the state it was in, with its underlying object untouched.
\<close>

theorem start_precondition_fault:
  assumes "\<not> U_startable (it d) \<or> uObj (it d) \<noteq> None"
  shows "let e = AssertionError (if \<not> U_startable (it d) then ''Not startable'' else ''Invalid state'')
         in U__start_sync d = (Some e, d) \<and>
            fst (U_start hook d) = Some e \<and>
            u_state (it (snd (U_start hook d))) = startFailed (states (meta (it d))) \<and>
            uObj (it (snd (U_start hook d))) = uObj (it d) \<and>
            u_trace (it (snd (U_start hook d))) =
              u_trace (it d) @
              map (\<lambda>ev. UAbort ev e) (abortOnStartFailure (stateConf (meta (it d)))) @
              [UNotify (startFailed (states (meta (it d))))
                 \<lparr>oldState = u_state (it d), extra = Err e\<rparr> (u_state (it d))]"
  using assms
  by (auto simp: U_start_def U__start_sync_def U_start_catch_def Let_def U_setState_fields
        it_fold_u_abort)

theorem start_precondition_fault_witness:
  "\<not> U_startable (it running_on_retry) \<and>
   u_state (it running_on_retry) = ''running'' \<and>
   fst (U_start (HookOk 8) running_on_retry) = Some (AssertionError ''Not startable'') \<and>
   u_state (it (snd (U_start (HookOk 8) running_on_retry))) = ''start-failed'' \<and>
   uObj (it (snd (U_start (HookOk 8) running_on_retry))) = Some 7"
proof -
  have 1: "\<not> U_startable (it running_on_retry)" by code_simp
  have 3: "meta (it running_on_retry) = FakeProcess_meta" by code_simp
  have 4: "u_state (it running_on_retry) = ''running''" by code_simp
  have 5: "uObj (it running_on_retry) = Some 7" by code_simp
  show ?thesis
    using start_precondition_fault [of running_on_retry "HookOk 8"] 1
    by (simp add: 3 4 5 Let_def FakeProcess_meta_def)
qed

text \<open>
  C10.  \<open>waitForState(s, timeout, signal)\<close> on an instance whose state already
  is \<open>s\<close> returns \<open>undefined\<close> at once and registers no waiter: the object
  graph is unchanged.  Otherwise it registers a waiter for \<open>s\<close>, and it is the
  next transition to \<open>s\<close> that resolves this waiter, with a payload holding the
  state left.
\<close>

theorem waitForState_immediate:
  "(u_state (it d) = s \<longrightarrow> U_waitForState s timeout signal d = (None, d)) \<and>
   (u_state (it d) \<noteq> s \<longrightarrow>
      fst (U_waitForState s timeout signal d) = Some (length (waiters (it d))) \<and>
      waiters (it (snd (U_waitForState s timeout signal d))) =
        waiters (it d) @ [\<lparr>w_event = s, w_timeout = timeout, w_signal = signal\<rparr>] \<and>
      u_trace (it (snd (U_waitForState s timeout signal d))) = u_trace (it d) \<and>
      waiters (it (U_setState s ex (snd (U_waitForState s timeout signal d)))) =
        filter (\<lambda>w. w_event w \<noteq> s) (waiters (it d)) \<and>
      u_trace (it (U_setState s ex (snd (U_waitForState s timeout signal d)))) =
        u_trace (it d) @ [UNotify s \<lparr>oldState = u_state (it d), extra = ex\<rparr> (u_state (it d))])"
  by (simp add: U_waitForState_def u_waitFor_def U_setState_fields)

theorem waitForState_immediate_witness:
  "u_state (it running_on_retry) = ''running'' \<and>
   U_waitForState ''running'' (Some 1000) None running_on_retry = (None, running_on_retry) \<and>
   u_state (it running_on_retry) \<noteq> ''stopped'' \<and>
   fst (U_waitForState ''stopped'' (Some 1000) None running_on_retry) = Some 0 \<and>
   waiters (it (snd (U_waitForState ''stopped'' (Some 1000) None running_on_retry))) =
     [\<lparr>w_event = ''stopped'', w_timeout = Some 1000, w_signal = None\<rparr>]"
proof -
  have 1: "u_state (it running_on_retry) = ''running''" by code_simp
  have 2: "waiters (it running_on_retry) = []" by code_simp
  show ?thesis
    using waitForState_immediate [of running_on_retry "''running''" "Some 1000" None NoExtra]
          waitForState_immediate [of running_on_retry "''stopped''" "Some 1000" None NoExtra]
    by (simp add: 1 2)
qed

end
